theory Spec2Isabelle
  imports Complex_Main "HOL-Library.AList"
begin

section \<open>JavaScript values\<close>

text \<open>
  The driver (autostep.js) exchanges JSON objects with the motor controller. A value is
  one of the primitives of the language or an object, kept as an association list in
  insertion order. A number is the real value of a double, \<open>NaN\<close>, or \<open>Infinity\<close>,
  which stands for both signed infinities (the two zeros are not told apart). Arrays
  and functions do not occur in the protocol and are left out.
\<close>

datatype jsval =
    JUndefined
  | JNull
  | JBool bool
  | JNum real
  | JNaN
  | JInfinity
  | JStr string
  | JObj "(string \<times> jsval) list"

type_synonym obj = "(string \<times> jsval) list"

datatype error =
    TypeError
  | SyntaxError
  | DeviceError jsval
  | Reason string

text \<open>
  The state of a promise: settled with a value, settled with a rejection, or never
  settled. \<open>Thrown\<close> is an exception raised synchronously by a method that is not
  \<^verbatim>\<open>async\<close>.
\<close>

datatype outcome =
    Resolved jsval
  | Rejected error
  | Thrown error
  | Pending

text \<open>Truthiness, as tested by \<^verbatim>\<open>if (v)\<close> and \<^verbatim>\<open>!v\<close>.\<close>

fun truthy :: "jsval \<Rightarrow> bool" where
  "truthy JUndefined = False"
| "truthy JNull = False"
| "truthy (JBool b) = b"
| "truthy (JNum x) = (x \<noteq> 0)"
| "truthy JNaN = False"
| "truthy JInfinity = True"
| "truthy (JStr s) = (s \<noteq> [])"
| "truthy (JObj ps) = True"

text \<open>lodash's \<^verbatim>\<open>_.isEmpty\<close>: an object without keys, an empty string, or any other primitive.\<close>

fun isEmpty :: "jsval \<Rightarrow> bool" where
  "isEmpty (JObj ps) = (ps = [])"
| "isEmpty (JStr s) = (s = [])"
| "isEmpty v = True"

text \<open>Reading a property of an object that may lack it gives \<^verbatim>\<open>undefined\<close>.\<close>

definition obj_get :: "obj \<Rightarrow> string \<Rightarrow> jsval" where
  "obj_get ps k = (case map_of ps k of None \<Rightarrow> JUndefined | Some v \<Rightarrow> v)"

text \<open>
  \<^verbatim>\<open>v[k]\<close> for the property names used by the driver (none of them is a property of a
  primitive): reading from \<^verbatim>\<open>null\<close> or \<^verbatim>\<open>undefined\<close> raises a TypeError.
\<close>

fun get_prop :: "jsval \<Rightarrow> string \<Rightarrow> error + jsval" where
  "get_prop JUndefined k = Inl TypeError"
| "get_prop JNull k = Inl TypeError"
| "get_prop (JObj ps) k = Inr (obj_get ps k)"
| "get_prop v k = Inr JUndefined"

text \<open>
  The object literal \<^verbatim>\<open>{command: c, ...v}\<close>: the own properties of \<open>v\<close> are copied
  over the literal's own in order, so a key of \<open>v\<close> replaces an earlier one of the
  same name. The own properties of a string are its characters under their decimal
  indices; the other primitives have none. (The runtime enumerates integer-like keys
  before the others; the association list keeps them where they were inserted.)
\<close>

fun decimal :: "nat \<Rightarrow> string" where
  "decimal n =
     (if n < 10 then [char_of (48 + n)] else decimal (n div 10) @ [char_of (48 + n mod 10)])"

declare decimal.simps [simp del]

definition own_props :: "jsval \<Rightarrow> obj" where
  "own_props v =
     (case v of
        JObj ps \<Rightarrow> ps
      | JStr cs \<Rightarrow> zip (map decimal [0..<length cs]) (map (\<lambda>c. JStr [c]) cs)
      | _ \<Rightarrow> [])"

definition spread :: "obj \<Rightarrow> jsval \<Rightarrow> obj" where
  "spread base v = foldl (\<lambda>acc (k, x). AList.update k x acc) base (own_props v)"

text \<open>
  \<^verbatim>\<open>ToNumber\<close>. How the runtime reads a string as a number is not part of the
  repository: it is the parameter \<open>stringToNumber\<close> of every function that computes
  with a value received from outside; whatever it returns is read as a number
  (\<open>numeric\<close>).
\<close>

definition numeric :: "jsval \<Rightarrow> jsval" where
  "numeric v = (case v of JNum x \<Rightarrow> JNum x | JInfinity \<Rightarrow> JInfinity | _ \<Rightarrow> JNaN)"

fun toNumber :: "(string \<Rightarrow> jsval) \<Rightarrow> jsval \<Rightarrow> jsval" where
  "toNumber stringToNumber JUndefined = JNaN"
| "toNumber stringToNumber JNull = JNum 0"
| "toNumber stringToNumber (JBool b) = JNum (if b then 1 else 0)"
| "toNumber stringToNumber (JNum x) = JNum x"
| "toNumber stringToNumber JNaN = JNaN"
| "toNumber stringToNumber JInfinity = JInfinity"
| "toNumber stringToNumber (JStr s) = numeric (stringToNumber s)"
| "toNumber stringToNumber (JObj ps) = JNaN"

text \<open>
  Arithmetic on doubles (IEEE 754 binary64, round to nearest, ties to even): the
  result of an operation is the exact result rounded. \<open>rne\<close> rounds a real to the
  nearest integer, a tie going to the even one. \<open>binade y\<close> is the exponent \<open>e\<close> with
  \<open>2\<^sup>e \<le> \<bar>y\<bar> < 2\<^sup>e\<^sup>+\<^sup>1\<close>, and not less than -1022, where the subnormal numbers begin; the
  doubles of that binade are the multiples of \<open>ulp y\<close>. \<open>nearest y\<close> is the multiple
  nearest to \<open>y\<close>, and \<open>toDouble\<close> gives \<open>Infinity\<close> when its magnitude reaches
  \<open>2\<^sup>1\<^sup>0\<^sup>2\<^sup>4\<close>. \<open>min_normal\<close> is the least positive normal double.
\<close>

definition rne :: "real \<Rightarrow> int" where
  "rne y =
     (let f = \<lfloor>y\<rfloor>
      in if y - of_int f < 1 / 2 then f
         else if 1 / 2 < y - of_int f then f + 1
         else if even f then f else f + 1)"

definition binade :: "real \<Rightarrow> int" where
  "binade y = max (- 1022) \<lfloor>log 2 \<bar>y\<bar>\<rfloor>"

definition ulp :: "real \<Rightarrow> real" where
  "ulp y = 2 powr of_int (binade y - 52)"

definition nearest :: "real \<Rightarrow> real" where
  "nearest y = of_int (rne (y / ulp y)) * ulp y"

definition overflow :: real where
  "overflow = 2 ^ 1024"


definition toDouble :: "real \<Rightarrow> jsval" where
  "toDouble y = (if overflow \<le> \<bar>nearest y\<bar> then JInfinity else JNum (nearest y))"

text \<open>
  \<^verbatim>\<open>a * g\<close> and \<^verbatim>\<open>a / g\<close> for a finite number \<open>g\<close>: the exact product and quotient,
  rounded; division by zero does not raise.
\<close>

definition js_mul :: "(string \<Rightarrow> jsval) \<Rightarrow> jsval \<Rightarrow> real \<Rightarrow> jsval" where
  "js_mul stringToNumber a g =
     (case toNumber stringToNumber a of
        JNum x \<Rightarrow> toDouble (x * g)
      | JInfinity \<Rightarrow> (if g = 0 then JNaN else JInfinity)
      | _ \<Rightarrow> JNaN)"

definition js_div :: "(string \<Rightarrow> jsval) \<Rightarrow> jsval \<Rightarrow> real \<Rightarrow> jsval" where
  "js_div stringToNumber a g =
     (case toNumber stringToNumber a of
        JNum x \<Rightarrow> (if g = 0 then (if x = 0 then JNaN else JInfinity) else toDouble (x / g))
      | JInfinity \<Rightarrow> JInfinity
      | _ \<Rightarrow> JNaN)"

text \<open>
  \<^verbatim>\<open>a + b\<close> where \<open>a\<close> is a number (the driver adds to a position it has just divided,
  and to a product): the exact sum, rounded.
\<close>

definition js_add :: "(string \<Rightarrow> jsval) \<Rightarrow> jsval \<Rightarrow> real \<Rightarrow> jsval" where
  "js_add stringToNumber a b =
     (case toNumber stringToNumber a of
        JNum x \<Rightarrow> toDouble (x + b)
      | JInfinity \<Rightarrow> JInfinity
      | _ \<Rightarrow> JNaN)"

text \<open>
  \<^verbatim>\<open>r.k = r.k / g\<close> in strict mode: reading from \<^verbatim>\<open>null\<close> or \<^verbatim>\<open>undefined\<close> raises,
  and so does creating a property on any other primitive.
\<close>

definition divide_prop :: "(string \<Rightarrow> jsval) \<Rightarrow> string \<Rightarrow> real \<Rightarrow> jsval \<Rightarrow> error + jsval" where
  "divide_prop stringToNumber k g r =
     (case r of
        JObj ps \<Rightarrow> Inr (JObj (AList.update k (js_div stringToNumber (obj_get ps k) g) ps))
      | _ \<Rightarrow> Inl TypeError)"

text \<open>\<^verbatim>\<open>delete r.k\<close>: raises on \<^verbatim>\<open>null\<close> and \<^verbatim>\<open>undefined\<close>, does nothing on another primitive.\<close>

definition delete_prop :: "string \<Rightarrow> jsval \<Rightarrow> error + jsval" where
  "delete_prop k r =
     (case r of
        JObj ps \<Rightarrow> Inr (JObj (AList.delete k ps))
      | JUndefined \<Rightarrow> Inl TypeError
      | JNull \<Rightarrow> Inl TypeError
      | _ \<Rightarrow> Inr r)"

text \<open>
  \<^verbatim>\<open>Number(x.toFixed(0))\<close> on a number: the nearest integer, a tie going away from
  zero; from \<open>10\<^sup>2\<^sup>1\<close> on \<^verbatim>\<open>toFixed\<close> prints the number itself. The integer
  nearest to a double is a double, so nothing is rounded a second time.
\<close>

definition toFixed0 :: "real \<Rightarrow> real" where
  "toFixed0 x = (if 10 ^ 21 \<le> \<bar>x\<bar> then x else sgn x * of_int \<lfloor>\<bar>x\<bar> + 1 / 2\<rfloor>)"

section \<open>The connection object and the serial device\<close>

text \<open>
  A received line is kept as what \<^verbatim>\<open>JSON.parse\<close> makes of it: the parsed value, or
  \<open>Malformed\<close> when parsing raises a SyntaxError. A sent line is kept as the command
  object that \<^verbatim>\<open>JSON.stringify\<close> is applied to. The device answers a command by
  calling back with an error value and a line.
\<close>

datatype line = Json jsval | Malformed

type_synonym response = "jsval \<times> line"

type_synonym sample = "jsval \<times> jsval"

text \<open>
  The fields \<open>gearRatio\<close> and \<open>sinusoidRunning\<close> are those of class Autostep. The
  device it owns is seen through \<open>replies\<close> (the callbacks the device will make, one per
  command, in order), \<open>sent\<close> (the commands written so far) and \<open>streamConsumer\<close>
  (the registered stream consumer: \<open>Some b\<close> is the wrapper installed by
  \<^verbatim>\<open>sinusoid\<close>, with \<open>b\<close> telling whether the caller gave a consumer of its own).
  \<open>forwarded\<close> records the samples passed on to the caller's consumer, and \<open>heap\<close>
  holds the objects the caller passes by reference.
\<close>

record autostep =
  gearRatio :: real
  sinusoidRunning :: bool
  replies :: "response list"
  sent :: "obj list"
  streamConsumer :: "bool option"
  forwarded :: "sample list"
  heap :: "obj list"

definition DEFAULT_GEAR_RATIO :: real where
  "DEFAULT_GEAR_RATIO = 1.0"

definition AUTOSET_POSITION_START_ANGLE :: real where
  "AUTOSET_POSITION_START_ANGLE = 5.0"

text \<open>
  The constructor; the answers of the device that is opened and the caller's objects
  are given.
\<close>

definition new_Autostep :: "response list \<Rightarrow> obj list \<Rightarrow> autostep" where
  "new_Autostep rs h =
     \<lparr>gearRatio = DEFAULT_GEAR_RATIO, sinusoidRunning = False, replies = rs, sent = [],
      streamConsumer = None, forwarded = [], heap = h\<rparr>"

definition setGearRatio :: "real \<Rightarrow> autostep \<Rightarrow> autostep" where
  "setGearRatio g s = s\<lparr>gearRatio := g\<rparr>"

text \<open>
  Modelled from the spec: serialdevice.js (class SerialDevice, with \<^verbatim>\<open>sendCmd\<close> and
  \<^verbatim>\<open>setStreamCallback\<close>) is not among the sources. Following the specification, the
  order of the inbound lines is the correlation mechanism: a command is written, and
  the next answer of the device is handed to the callback of that command; a device
  with no answer left never calls back. A stream sample is handed to the registered
  stream consumer.
\<close>

definition device_sendCmd :: "obj \<Rightarrow> autostep \<Rightarrow> autostep \<times> response option" where
  "device_sendCmd cmd s =
     (case replies s of
        [] \<Rightarrow> (s\<lparr>sent := sent s @ [cmd]\<rparr>, None)
      | r # rs \<Rightarrow> (s\<lparr>replies := rs, sent := sent s @ [cmd]\<rparr>, Some r))"

definition setStreamCallback :: "bool \<Rightarrow> autostep \<Rightarrow> autostep" where
  "setStreamCallback b s = s\<lparr>streamConsumer := Some b\<rparr>"

text \<open>
  \<^verbatim>\<open>_sendCmd\<close>: the promise is rejected with the device's error, rejected with the
  SyntaxError of \<^verbatim>\<open>JSON.parse\<close> (the \<^verbatim>\<open>resolve\<close> that follows the \<^verbatim>\<open>catch\<close> finds
  the promise settled and does nothing), or resolved with the parsed reply, whatever
  its \<open>success\<close> field. The optional node-style callback only observes the settled
  promise and is not modelled.
\<close>

definition sendCmd :: "obj \<Rightarrow> autostep \<Rightarrow> autostep \<times> outcome" where
  "sendCmd cmd s =
     (case device_sendCmd cmd s of
        (s', None) \<Rightarrow> (s', Pending)
      | (s', Some (err, rsp)) \<Rightarrow>
          (s', if truthy err then Rejected (DeviceError err)
               else (case rsp of Malformed \<Rightarrow> Rejected SyntaxError | Json rspObj \<Rightarrow> Resolved rspObj)))"

section \<open>Asynchronous functions\<close>

text \<open>
  \<^verbatim>\<open>await p\<close> inside an \<^verbatim>\<open>async\<close> function: the function goes on with the value of
  \<open>p\<close>; a rejection of \<open>p\<close>, or an exception raised while \<open>p\<close> was computed, rejects the
  function's own promise; while \<open>p\<close> is pending so is the function.
\<close>

definition await :: "autostep \<times> outcome \<Rightarrow> (autostep \<Rightarrow> jsval \<Rightarrow> autostep \<times> outcome) \<Rightarrow> autostep \<times> outcome" where
  "await r k =
     (case r of
        (s, Resolved v) \<Rightarrow> k s v
      | (s, Rejected e) \<Rightarrow> (s, Rejected e)
      | (s, Thrown e) \<Rightarrow> (s, Rejected e)
      | (s, Pending) \<Rightarrow> (s, Pending))"

text \<open>An expression that may raise, inside an \<^verbatim>\<open>async\<close> function.\<close>

definition orReject :: "error + 'a \<Rightarrow> autostep \<Rightarrow> ('a \<Rightarrow> autostep \<times> outcome) \<Rightarrow> autostep \<times> outcome" where
  "orReject x s k = (case x of Inl e \<Rightarrow> (s, Rejected e) | Inr v \<Rightarrow> k v)"

section \<open>The commands of class Autostep\<close>

definition enable :: "autostep \<Rightarrow> autostep \<times> outcome" where
  "enable s = sendCmd [(''command'', JStr ''enable'')] s"

definition release :: "autostep \<Rightarrow> autostep \<times> outcome" where
  "release s = sendCmd [(''command'', JStr ''release'')] s"

definition run :: "(string \<Rightarrow> jsval) \<Rightarrow> jsval \<Rightarrow> autostep \<Rightarrow> autostep \<times> outcome" where
  "run stringToNumber velocity s =
     (let velocityAdj = js_mul stringToNumber velocity (gearRatio s)
      in sendCmd [(''command'', JStr ''run''), (''velocity'', velocityAdj)] s)"

text \<open>
  The wrapper that \<^verbatim>\<open>sinusoid\<close> installs as the stream consumer; \<open>streamCallback\<close>
  tells whether the caller gave a consumer, which is then handed the sample.
\<close>

definition streamCallbackWrapped :: "bool \<Rightarrow> jsval \<Rightarrow> jsval \<Rightarrow> autostep \<Rightarrow> autostep" where
  "streamCallbackWrapped streamCallback err data s =
     (let s1 = (if truthy err \<or> isEmpty data then s\<lparr>sinusoidRunning := False\<rparr> else s)
      in if streamCallback then s1\<lparr>forwarded := forwarded s1 @ [(err, data)]\<rparr> else s1)"

text \<open>
  \<^verbatim>\<open>sinusoid(params, cmdCallback, streamCallback)\<close>. \<open>params\<close> is the address of the
  caller's object in the heap (an address outside the heap stands for a \<open>params\<close> that
  is not an object). \<^verbatim>\<open>_.cloneDeep\<close> allocates a copy, and the two assignments write
  to the copy. The reply is a fresh value, so its clone is the value itself. The
  acknowledgement is the first line after the command: no sample arrives before it.
\<close>

definition cloneDeep :: "nat \<Rightarrow> autostep \<Rightarrow> autostep \<times> nat" where
  "cloneDeep a s = (s\<lparr>heap := heap s @ [heap s ! a]\<rparr>, length (heap s))"

definition heap_set :: "nat \<Rightarrow> string \<Rightarrow> jsval \<Rightarrow> autostep \<Rightarrow> autostep" where
  "heap_set a k v s = s\<lparr>heap := (heap s)[a := AList.update k v (heap s ! a)]\<rparr>"

definition sinusoid :: "(string \<Rightarrow> jsval) \<Rightarrow> nat \<Rightarrow> bool \<Rightarrow> autostep \<Rightarrow> autostep \<times> outcome" where
  "sinusoid stringToNumber params streamCallback s0 =
     (if length (heap s0) \<le> params then (s0, Rejected TypeError)
      else
        (case cloneDeep params s0 of (s1, paramsAdj) \<Rightarrow>
           let s2 = heap_set paramsAdj ''amplitude''
                      (js_mul stringToNumber (obj_get (heap s1 ! paramsAdj) ''amplitude'') (gearRatio s1)) s1;
               s3 = heap_set paramsAdj ''offset''
                      (js_mul stringToNumber (obj_get (heap s2 ! paramsAdj) ''offset'') (gearRatio s2)) s2;
               cmd = spread [(''command'', JStr ''sinusoid'')] (JObj (heap s3 ! paramsAdj));
               s4 = setStreamCallback streamCallback s3;
               s5 = s4\<lparr>sinusoidRunning := True\<rparr>
           in await (sendCmd cmd s5) (\<lambda>s rsp.
                orReject (divide_prop stringToNumber ''amplitude'' (gearRatio s) rsp) s (\<lambda>rspAdj.
                orReject (divide_prop stringToNumber ''offset'' (gearRatio s) rspAdj) s (\<lambda>rspAdj.
                (s, Resolved rspAdj))))))"

definition moveTo :: "(string \<Rightarrow> jsval) \<Rightarrow> jsval \<Rightarrow> autostep \<Rightarrow> autostep \<times> outcome" where
  "moveTo stringToNumber position s =
     (let positionAdj = js_mul stringToNumber position (gearRatio s)
      in sendCmd [(''command'', JStr ''move_to''), (''position'', positionAdj)] s)"

text \<open>
  \<^verbatim>\<open>Math.PI\<close> is the double nearest to \<open>\<pi>\<close>. The sine of the runtime, \<^verbatim>\<open>Math.sin\<close>, is
  an approximation the language leaves to the implementation: it is the parameter
  \<open>mathSin\<close>.
\<close>

definition Math_PI :: real where
  "Math_PI = 7074237752028440 / 2 ^ 51"

definition degreeToRadian :: "(string \<Rightarrow> jsval) \<Rightarrow> real \<Rightarrow> jsval" where
  "degreeToRadian stringToNumber x = js_div stringToNumber (js_mul stringToNumber (JNum x) Math_PI) 180"

text \<open>\<^verbatim>\<open>moveToSinusoidStart\<close>, called with numbers in \<open>params.amplitude\<close>, \<open>params.phase\<close> and \<open>params.offset\<close>.\<close>

definition moveToSinusoidStart :: "(string \<Rightarrow> jsval) \<Rightarrow> (jsval \<Rightarrow> jsval) \<Rightarrow> real \<Rightarrow> real \<Rightarrow> real \<Rightarrow> autostep \<Rightarrow> autostep \<times> outcome" where
  "moveToSinusoidStart stringToNumber mathSin amplitude phase offset s =
     (let phaseInRadian = degreeToRadian stringToNumber phase;
          startAngle = js_add stringToNumber (js_mul stringToNumber (mathSin phaseInRadian) amplitude) offset
      in moveTo stringToNumber startAngle s)"

definition getPosition :: "(string \<Rightarrow> jsval) \<Rightarrow> autostep \<Rightarrow> autostep \<times> outcome" where
  "getPosition stringToNumber s0 =
     await (sendCmd [(''command'', JStr ''get_position'')] s0) (\<lambda>s rsp.
       orReject (divide_prop stringToNumber ''position'' (gearRatio s) rsp) s (\<lambda>rspAdj.
       (s, Resolved rspAdj)))"

text \<open>\<^verbatim>\<open>moveBy\<close>, called with a number.\<close>

definition moveBy :: "(string \<Rightarrow> jsval) \<Rightarrow> real \<Rightarrow> autostep \<Rightarrow> autostep \<times> outcome" where
  "moveBy stringToNumber step s0 =
     await (getPosition stringToNumber s0) (\<lambda>s rsp.
       orReject (get_prop rsp ''position'') s (\<lambda>position.
       await (moveTo stringToNumber (js_add stringToNumber position step) s) (\<lambda>s rsp. (s, Resolved rsp))))"

definition moveToFullsteps :: "jsval \<Rightarrow> autostep \<Rightarrow> autostep \<times> outcome" where
  "moveToFullsteps position s =
     sendCmd [(''command'', JStr ''move_to_fullsteps''), (''position'', position)] s"

definition moveToMicrosteps :: "jsval \<Rightarrow> autostep \<Rightarrow> autostep \<times> outcome" where
  "moveToMicrosteps position s =
     sendCmd [(''command'', JStr ''move_to_microsteps''), (''position'', position)] s"

definition softStop :: "autostep \<Rightarrow> autostep \<times> outcome" where
  "softStop s = sendCmd [(''command'', JStr ''soft_stop'')] s"

definition hardStop :: "autostep \<Rightarrow> autostep \<times> outcome" where
  "hardStop s = sendCmd [(''command'', JStr ''hard_stop'')] s"

definition isBusy :: "autostep \<Rightarrow> autostep \<times> outcome" where
  "isBusy s = sendCmd [(''command'', JStr ''is_busy'')] s"

text \<open>
  Modelled from the spec: the device (serialdevice.js, not among the sources) hands a
  stream sample, an error value and the data, to the registered stream consumer; with
  no consumer registered the sample is dropped. This can happen at any moment the
  driver is suspended.
\<close>

definition deliver :: "sample \<Rightarrow> autostep \<Rightarrow> autostep" where
  "deliver x s =
     (case streamConsumer s of
        None \<Rightarrow> s
      | Some b \<Rightarrow> streamCallbackWrapped b (fst x) (snd x) s)"

text \<open>
  \<^verbatim>\<open>busyWait\<close>. One pass of the loop is \<open>busyTick\<close>: its argument is the list of
  samples that arrive during \<^verbatim>\<open>await timeout(BUSYWAIT_TIMEOUT_MS)\<close> (a sample arriving
  while \<open>is_busy\<close> is awaited finds the session off already, and is counted with the
  next pass). The pass ends with \<open>done\<close> set (\<open>Done\<close>), with \<open>done\<close> unset (\<open>Again\<close>),
  or it stops for good (\<open>Stuck\<close>): the executor is an \<^verbatim>\<open>async\<close> function, so an
  \<^verbatim>\<open>await\<close> that is rejected or never settled, and an exception, leave the promise
  of \<^verbatim>\<open>busyWait\<close> unsettled.
\<close>

datatype tick = Done | Again | Stuck

definition busyTick :: "sample list \<Rightarrow> autostep \<Rightarrow> autostep \<times> tick" where
  "busyTick arrived s0 =
     (let s = foldl (\<lambda>s x. deliver x s) s0 arrived
      in if sinusoidRunning s then
           (if \<not> sinusoidRunning s then (s, Done) else (s, Again))
         else
           (case isBusy s of
              (s', Resolved rsp) \<Rightarrow>
                (case get_prop rsp ''success'' of
                   Inl e \<Rightarrow> (s', Stuck)
                 | Inr success \<Rightarrow>
                     if truthy success then
                       (case get_prop rsp ''is_busy'' of
                          Inl e \<Rightarrow> (s', Stuck)
                        | Inr busy \<Rightarrow> (s', if \<not> truthy busy then Done else Again))
                     else (s', Done))
            | (s', _) \<Rightarrow> (s', Stuck)))"

text \<open>
  The loop runs once per expiry of the timer. The argument of \<open>busyWait\<close> gives the
  samples arriving before each expiry, for as long as the run is observed; when it is
  used up the promise is still pending.
\<close>

fun busyWait :: "sample list list \<Rightarrow> autostep \<Rightarrow> autostep \<times> outcome" where
  "busyWait [] s = (s, Pending)"
| "busyWait (arrived # later) s =
     (case busyTick arrived s of
        (s', Done) \<Rightarrow> (s', Resolved JUndefined)
      | (s', Again) \<Rightarrow> busyWait later s'
      | (s', Stuck) \<Rightarrow> (s', Pending))"

definition setMoveModeToMax :: "autostep \<Rightarrow> autostep \<times> outcome" where
  "setMoveModeToMax s = sendCmd [(''command'', JStr ''set_max_mode'')] s"

definition setMoveModeToJog :: "autostep \<Rightarrow> autostep \<times> outcome" where
  "setMoveModeToJog s = sendCmd [(''command'', JStr ''set_jog_mode'')] s"

definition setPosition :: "(string \<Rightarrow> jsval) \<Rightarrow> jsval \<Rightarrow> autostep \<Rightarrow> autostep \<times> outcome" where
  "setPosition stringToNumber position s =
     (let positionAdj = js_mul stringToNumber position (gearRatio s)
      in sendCmd [(''command'', JStr ''set_position''), (''position'', positionAdj)] s)"

definition getPositionFullsteps :: "autostep \<Rightarrow> autostep \<times> outcome" where
  "getPositionFullsteps s = sendCmd [(''command'', JStr ''get_position_fullsteps'')] s"

definition getPositionMicrosteps :: "autostep \<Rightarrow> autostep \<times> outcome" where
  "getPositionMicrosteps s = sendCmd [(''command'', JStr ''get_position_microsteps'')] s"

definition getPositionSensor :: "autostep \<Rightarrow> autostep \<times> outcome" where
  "getPositionSensor s = sendCmd [(''command'', JStr ''get_position_sensor'')] s"

definition getVoltageSensor :: "autostep \<Rightarrow> autostep \<times> outcome" where
  "getVoltageSensor s = sendCmd [(''command'', JStr ''get_voltage_sensor'')] s"

definition autosetPosition :: "autostep \<Rightarrow> autostep \<times> outcome" where
  "autosetPosition s = sendCmd [(''command'', JStr ''autoset_position'')] s"

text \<open>
  \<^verbatim>\<open>autosetPositionProcedure\<close> builds a promise and has no \<^verbatim>\<open>return\<close> statement. The
  result of the model is the state, the value returned to the caller, and the final
  state of the promise built inside. \<^verbatim>\<open>reject\<close> settles a pending promise and does
  not leave the executor, which goes on with the next statement; the executor stops at
  an \<^verbatim>\<open>await\<close> that is rejected or never settled and at an exception, and the promise
  stays as it is.
\<close>

definition reject :: "error \<Rightarrow> outcome \<Rightarrow> outcome" where
  "reject e promise = (case promise of Pending \<Rightarrow> Rejected e | _ \<Rightarrow> promise)"

definition awaitIn :: "autostep \<times> outcome \<Rightarrow> outcome \<Rightarrow> (autostep \<Rightarrow> jsval \<Rightarrow> autostep \<times> outcome) \<Rightarrow> autostep \<times> outcome" where
  "awaitIn r promise k =
     (case r of
        (s, Resolved v) \<Rightarrow> k s v
      | (s, _) \<Rightarrow> (s, promise))"

definition rejectUnlessSuccess :: "jsval \<Rightarrow> string \<Rightarrow> autostep \<Rightarrow> outcome \<Rightarrow> (outcome \<Rightarrow> autostep \<times> outcome) \<Rightarrow> autostep \<times> outcome" where
  "rejectUnlessSuccess rsp msg s promise k =
     (case get_prop rsp ''success'' of
        Inl e \<Rightarrow> (s, promise)
      | Inr success \<Rightarrow> k (if \<not> truthy success then reject (Reason msg) promise else promise))"

definition autosetPositionProcedure :: "(string \<Rightarrow> jsval) \<Rightarrow> sample list list \<Rightarrow> autostep \<Rightarrow> autostep \<times> jsval \<times> outcome" where
  "autosetPositionProcedure stringToNumber ticks s0 =
     (case
        awaitIn (autosetPosition s0) Pending (\<lambda>s rsp.
        rejectUnlessSuccess rsp ''autoset: set position failed'' s Pending (\<lambda>promise.
        awaitIn (moveTo stringToNumber (JNum AUTOSET_POSITION_START_ANGLE) s) promise (\<lambda>s rsp.
        rejectUnlessSuccess rsp ''autoset: move to start position failed'' s promise (\<lambda>promise.
        awaitIn (busyWait ticks s) promise (\<lambda>s _.
        awaitIn (autosetPosition s) promise (\<lambda>s rsp.
        rejectUnlessSuccess rsp ''autoset: set position failed'' s promise (\<lambda>promise.
        (s, promise))))))))
      of (s, promise) \<Rightarrow> (s, JUndefined, promise))"

definition getStepMode :: "autostep \<Rightarrow> autostep \<times> outcome" where
  "getStepMode s = sendCmd [(''command'', JStr ''get_step_mode'')] s"

definition setStepMode :: "jsval \<Rightarrow> autostep \<Rightarrow> autostep \<times> outcome" where
  "setStepMode stepMode s =
     sendCmd [(''command'', JStr ''set_step_mode''), (''step_mode'', stepMode)] s"

definition getFullstepPerRev :: "autostep \<Rightarrow> autostep \<times> outcome" where
  "getFullstepPerRev s = sendCmd [(''command'', JStr ''get_fullstep_per_rev'')] s"

text \<open>
  \<^verbatim>\<open>setFullstepPerRev\<close> calls \<^verbatim>\<open>toFixed\<close> on its argument, which only a number has; on
  anything else the call raises a TypeError before a command is built.
\<close>

definition setFullstepPerRev :: "jsval \<Rightarrow> autostep \<Rightarrow> autostep \<times> outcome" where
  "setFullstepPerRev fullstepPerRev s =
     (case fullstepPerRev of
        JNum x \<Rightarrow>
          sendCmd [(''command'', JStr ''set_fullstep_per_rev''), (''fullstep_per_rev'', JNum (toFixed0 x))] s
      | JNaN \<Rightarrow>
          sendCmd [(''command'', JStr ''set_fullstep_per_rev''), (''fullstep_per_rev'', JNaN)] s
      | JInfinity \<Rightarrow>
          sendCmd [(''command'', JStr ''set_fullstep_per_rev''), (''fullstep_per_rev'', JInfinity)] s
      | _ \<Rightarrow> (s, Thrown TypeError))"

definition getJogModeParams :: "autostep \<Rightarrow> autostep \<times> outcome" where
  "getJogModeParams s = sendCmd [(''command'', JStr ''get_jog_mode_params'')] s"

definition setJogModeParams :: "jsval \<Rightarrow> autostep \<Rightarrow> autostep \<times> outcome" where
  "setJogModeParams params s = sendCmd (spread [(''command'', JStr ''set_jog_mode_params'')] params) s"

definition getMaxModeParams :: "autostep \<Rightarrow> autostep \<times> outcome" where
  "getMaxModeParams s = sendCmd [(''command'', JStr ''get_max_mode_params'')] s"

definition setMaxModeParams :: "jsval \<Rightarrow> autostep \<Rightarrow> autostep \<times> outcome" where
  "setMaxModeParams params s = sendCmd (spread [(''command'', JStr ''set_max_mode_params'')] params) s"

definition getKvalParams :: "autostep \<Rightarrow> autostep \<times> outcome" where
  "getKvalParams s = sendCmd [(''command'', JStr ''get_kval_params'')] s"

definition setKvalParams :: "jsval \<Rightarrow> autostep \<Rightarrow> autostep \<times> outcome" where
  "setKvalParams params s = sendCmd (spread [(''command'', JStr ''set_kval_params'')] params) s"

definition getOCThreshold :: "autostep \<Rightarrow> autostep \<times> outcome" where
  "getOCThreshold s = sendCmd [(''command'', JStr ''get_oc_threshold'')] s"

definition setOCThreshold :: "jsval \<Rightarrow> autostep \<Rightarrow> autostep \<times> outcome" where
  "setOCThreshold threshold s =
     sendCmd [(''command'', JStr ''set_oc_threshold''), (''threshold'', threshold)] s"

text \<open>
  \<^verbatim>\<open>setParams\<close>. The table \<open>paramSetters\<close> is enumerated in the order it is written;
  \<open>callSetter\<close> is the lookup \<^verbatim>\<open>this[setterName]\<close> followed by the call.
\<close>

definition paramSetters :: "(string \<times> string) list" where
  "paramSetters =
     [(''fullstepPerRev'', ''setFullstepPerRev''),
      (''stepMode'', ''setStepMode''),
      (''threshold'', ''setOCThreshold''),
      (''jogMode'', ''setJogModeParams''),
      (''maxMode'', ''setMaxModeParams''),
      (''kval'', ''setKvalParams'')]"

definition callSetter :: "string \<Rightarrow> jsval \<Rightarrow> autostep \<Rightarrow> autostep \<times> outcome" where
  "callSetter setterName v s =
     (if setterName = ''setFullstepPerRev'' then setFullstepPerRev v s
      else if setterName = ''setStepMode'' then setStepMode v s
      else if setterName = ''setOCThreshold'' then setOCThreshold v s
      else if setterName = ''setJogModeParams'' then setJogModeParams v s
      else if setterName = ''setMaxModeParams'' then setMaxModeParams v s
      else if setterName = ''setKvalParams'' then setKvalParams v s
      else (s, Thrown TypeError))"

fun setParams_loop :: "(string \<times> string) list \<Rightarrow> obj \<Rightarrow> autostep \<Rightarrow> autostep \<times> outcome" where
  "setParams_loop [] params s = (s, Resolved (JObj [(''success'', JBool True)]))"
| "setParams_loop ((paramName, setterName) # rest) params s0 =
     (if truthy (obj_get params paramName) then
        await (callSetter setterName (obj_get params paramName) s0) (\<lambda>s rsp.
          orReject (get_prop rsp ''success'') s (\<lambda>success.
          if \<not> truthy success then (s, Resolved rsp)
          else setParams_loop rest params s))
      else setParams_loop rest params s0)"

definition setParams :: "obj \<Rightarrow> autostep \<Rightarrow> autostep \<times> outcome" where
  "setParams params s = setParams_loop paramSetters params s"

definition getParams :: "autostep \<Rightarrow> autostep \<times> outcome" where
  "getParams s0 =
     await (getFullstepPerRev s0) (\<lambda>s rsp.
     orReject (get_prop rsp ''fullstep_per_rev'') s (\<lambda>fullstepPerRev.
     await (getStepMode s) (\<lambda>s rsp.
     orReject (get_prop rsp ''step_mode'') s (\<lambda>stepMode.
     await (getOCThreshold s) (\<lambda>s rsp.
     orReject (get_prop rsp ''threshold'') s (\<lambda>threshold.
     await (getJogModeParams s) (\<lambda>s jogModeParams.
     orReject (delete_prop ''success'' jogModeParams) s (\<lambda>jogModeParams.
     await (getMaxModeParams s) (\<lambda>s maxModeParams.
     orReject (delete_prop ''success'' maxModeParams) s (\<lambda>maxModeParams.
     await (getKvalParams s) (\<lambda>s kvalParams.
     orReject (delete_prop ''success'' kvalParams) s (\<lambda>kvalParams.
     (s, Resolved (JObj
        [(''fullstepPerRev'', fullstepPerRev),
         (''stepMode'', stepMode),
         (''threshold'', threshold),
         (''jogMode'', jogModeParams),
         (''maxMode'', maxModeParams),
         (''kval'', kvalParams)]))))))))))))))"

text \<open>\<^verbatim>\<open>printParams\<close> awaits \<^verbatim>\<open>getParams\<close> and writes to the console, which is not modelled.\<close>

definition printParams :: "autostep \<Rightarrow> autostep \<times> outcome" where
  "printParams s0 = await (getParams s0) (\<lambda>s params. (s, Resolved JUndefined))"

definition sleep :: "real \<Rightarrow> autostep \<Rightarrow> autostep \<times> outcome" where
  "sleep sec s = (s, Resolved JUndefined)"

section \<open>Operations on a connection\<close>

text \<open>
  Everything that can happen to a connection object: a call of one of its methods, or
  the device handing a stream sample to the registered consumer. \<open>perform\<close> gives the
  state afterwards. A call of \<open>moveToSinusoidStart\<close> comes with the sine of the runtime
  it is made in.
\<close>

datatype operation =
    SetGearRatio real
  | Enable
  | Release
  | Run jsval
  | Sinusoid nat bool
  | MoveToSinusoidStart "jsval \<Rightarrow> jsval" real real real
  | MoveTo jsval
  | MoveBy real
  | MoveToFullsteps jsval
  | MoveToMicrosteps jsval
  | SoftStop
  | HardStop
  | IsBusy
  | BusyWait "sample list list"
  | SetMoveModeToMax
  | SetMoveModeToJog
  | GetPosition
  | SetPosition jsval
  | GetPositionFullsteps
  | GetPositionMicrosteps
  | GetPositionSensor
  | GetVoltageSensor
  | AutosetPosition
  | AutosetPositionProcedure "sample list list"
  | GetStepMode
  | SetStepMode jsval
  | GetFullstepPerRev
  | SetFullstepPerRev jsval
  | GetJogModeParams
  | SetJogModeParams jsval
  | GetMaxModeParams
  | SetMaxModeParams jsval
  | GetKvalParams
  | SetKvalParams jsval
  | GetOCThreshold
  | SetOCThreshold jsval
  | SetParams obj
  | GetParams
  | PrintParams
  | Sleep real
  | StreamSample sample

fun perform :: "(string \<Rightarrow> jsval) \<Rightarrow> operation \<Rightarrow> autostep \<Rightarrow> autostep" where
  "perform n (SetGearRatio g) s = setGearRatio g s"
| "perform n Enable s = fst (enable s)"
| "perform n Release s = fst (release s)"
| "perform n (Run velocity) s = fst (run n velocity s)"
| "perform n (Sinusoid params streamCallback) s = fst (sinusoid n params streamCallback s)"
| "perform n (MoveToSinusoidStart mathSin amplitude phase offset) s = fst (moveToSinusoidStart n mathSin amplitude phase offset s)"
| "perform n (MoveTo position) s = fst (moveTo n position s)"
| "perform n (MoveBy step) s = fst (moveBy n step s)"
| "perform n (MoveToFullsteps position) s = fst (moveToFullsteps position s)"
| "perform n (MoveToMicrosteps position) s = fst (moveToMicrosteps position s)"
| "perform n SoftStop s = fst (softStop s)"
| "perform n HardStop s = fst (hardStop s)"
| "perform n IsBusy s = fst (isBusy s)"
| "perform n (BusyWait ticks) s = fst (busyWait ticks s)"
| "perform n SetMoveModeToMax s = fst (setMoveModeToMax s)"
| "perform n SetMoveModeToJog s = fst (setMoveModeToJog s)"
| "perform n GetPosition s = fst (getPosition n s)"
| "perform n (SetPosition position) s = fst (setPosition n position s)"
| "perform n GetPositionFullsteps s = fst (getPositionFullsteps s)"
| "perform n GetPositionMicrosteps s = fst (getPositionMicrosteps s)"
| "perform n GetPositionSensor s = fst (getPositionSensor s)"
| "perform n GetVoltageSensor s = fst (getVoltageSensor s)"
| "perform n AutosetPosition s = fst (autosetPosition s)"
| "perform n (AutosetPositionProcedure ticks) s = fst (autosetPositionProcedure n ticks s)"
| "perform n GetStepMode s = fst (getStepMode s)"
| "perform n (SetStepMode stepMode) s = fst (setStepMode stepMode s)"
| "perform n GetFullstepPerRev s = fst (getFullstepPerRev s)"
| "perform n (SetFullstepPerRev fullstepPerRev) s = fst (setFullstepPerRev fullstepPerRev s)"
| "perform n GetJogModeParams s = fst (getJogModeParams s)"
| "perform n (SetJogModeParams params) s = fst (setJogModeParams params s)"
| "perform n GetMaxModeParams s = fst (getMaxModeParams s)"
| "perform n (SetMaxModeParams params) s = fst (setMaxModeParams params s)"
| "perform n GetKvalParams s = fst (getKvalParams s)"
| "perform n (SetKvalParams params) s = fst (setKvalParams params s)"
| "perform n GetOCThreshold s = fst (getOCThreshold s)"
| "perform n (SetOCThreshold threshold) s = fst (setOCThreshold threshold s)"
| "perform n (SetParams params) s = fst (setParams params s)"
| "perform n GetParams s = fst (getParams s)"
| "perform n PrintParams s = fst (printParams s)"
| "perform n (Sleep sec) s = fst (sleep sec s)"
| "perform n (StreamSample x) s = deliver x s"

text \<open>
  The commands \<^verbatim>\<open>setParams\<close> is to send for \<open>params\<close>, by the table: one for each
  entry whose field of \<open>params\<close> is truthy, in the order of the table.
\<close>

definition setterCmd :: "string \<Rightarrow> jsval \<Rightarrow> obj" where
  "setterCmd setterName v =
     (if setterName = ''setFullstepPerRev'' then
        [(''command'', JStr ''set_fullstep_per_rev''),
         (''fullstep_per_rev'', (case v of JNum x \<Rightarrow> JNum (toFixed0 x) | _ \<Rightarrow> v))]
      else if setterName = ''setStepMode'' then
        [(''command'', JStr ''set_step_mode''), (''step_mode'', v)]
      else if setterName = ''setOCThreshold'' then
        [(''command'', JStr ''set_oc_threshold''), (''threshold'', v)]
      else if setterName = ''setJogModeParams'' then
        spread [(''command'', JStr ''set_jog_mode_params'')] v
      else if setterName = ''setMaxModeParams'' then
        spread [(''command'', JStr ''set_max_mode_params'')] v
      else spread [(''command'', JStr ''set_kval_params'')] v)"

definition planned :: "(string \<times> string) list \<Rightarrow> obj \<Rightarrow> obj list" where
  "planned table params =
     map (\<lambda>(paramName, setterName). setterCmd setterName (obj_get params paramName))
       (filter (\<lambda>(paramName, setterName). truthy (obj_get params paramName)) table)"

text \<open>A value that has \<^verbatim>\<open>toFixed\<close>.\<close>

definition isNumber :: "jsval \<Rightarrow> bool" where
  "isNumber v = (case v of JNum x \<Rightarrow> True | JNaN \<Rightarrow> True | JInfinity \<Rightarrow> True | _ \<Rightarrow> False)"

text \<open>
  \<open>answers rs os\<close>: the responses \<open>rs\<close> of the device report no error and their lines
  parse to the objects \<open>os\<close>, one each.
\<close>

definition answers :: "response list \<Rightarrow> obj list \<Rightarrow> bool" where
  "answers rs os = list_all2 (\<lambda>r ps. \<not> truthy (fst r) \<and> snd r = Json (JObj ps)) rs os"

section \<open>Sending a command\<close>

lemma sendCmd_Nil:
  "replies s = [] \<Longrightarrow> sendCmd cmd s = (s\<lparr>sent := sent s @ [cmd]\<rparr>, Pending)"
  by (simp add: sendCmd_def device_sendCmd_def)

lemma sendCmd_Cons:
  "replies s = (err, rsp) # rest \<Longrightarrow>
   sendCmd cmd s =
     (s\<lparr>replies := rest, sent := sent s @ [cmd]\<rparr>,
      if truthy err then Rejected (DeviceError err)
      else (case rsp of Malformed \<Rightarrow> Rejected SyntaxError | Json rspObj \<Rightarrow> Resolved rspObj))"
  by (simp add: sendCmd_def device_sendCmd_def)

lemma sent_sendCmd: "sent (fst (sendCmd cmd s)) = sent s @ [cmd]"
  by (simp add: sendCmd_def device_sendCmd_def split: list.splits prod.splits)

lemma sendCmd_fields:
  "gearRatio (fst (sendCmd cmd s)) = gearRatio s"
  "sinusoidRunning (fst (sendCmd cmd s)) = sinusoidRunning s"
  "heap (fst (sendCmd cmd s)) = heap s"
  "streamConsumer (fst (sendCmd cmd s)) = streamConsumer s"
  by (simp_all add: sendCmd_def device_sendCmd_def split: list.splits prod.splits)


text \<open>A stream sample never switches the session on, and touches nothing of the device.\<close>

lemma deliver_fields:
  "gearRatio (deliver x s) = gearRatio s"
  "replies (deliver x s) = replies s"
  "sent (deliver x s) = sent s"
  "heap (deliver x s) = heap s"
  "streamConsumer (deliver x s) = streamConsumer s"
  by (simp_all add: deliver_def streamCallbackWrapped_def Let_def split: option.splits)

lemma deliver_off: "\<not> sinusoidRunning s \<Longrightarrow> \<not> sinusoidRunning (deliver x s)"
  by (simp add: deliver_def streamCallbackWrapped_def Let_def split: option.splits)

lemma deliver_all_fields:
  "gearRatio (foldl (\<lambda>s x. deliver x s) s xs) = gearRatio s"
  "replies (foldl (\<lambda>s x. deliver x s) s xs) = replies s"
  "sent (foldl (\<lambda>s x. deliver x s) s xs) = sent s"
  "heap (foldl (\<lambda>s x. deliver x s) s xs) = heap s"
  "streamConsumer (foldl (\<lambda>s x. deliver x s) s xs) = streamConsumer s"
  by (induction xs arbitrary: s) (simp_all add: deliver_fields)

lemma deliver_all_off:
  "\<not> sinusoidRunning s \<Longrightarrow> \<not> sinusoidRunning (foldl (\<lambda>s x. deliver x s) s xs)"
  by (induction xs arbitrary: s) (simp_all add: deliver_off)

lemma fst_busyTick:
  "fst (busyTick arrived s) =
     (if sinusoidRunning (foldl (\<lambda>s x. deliver x s) s arrived)
      then foldl (\<lambda>s x. deliver x s) s arrived
      else fst (isBusy (foldl (\<lambda>s x. deliver x s) s arrived)))"
  by (simp add: busyTick_def Let_def split: prod.splits outcome.splits sum.splits)

lemma busyTick_sent: "\<exists>more. sent (fst (busyTick arrived s)) = sent s @ more"
  by (simp add: fst_busyTick isBusy_def sent_sendCmd deliver_all_fields)

lemma busyWait_sent: "\<exists>more. sent (fst (busyWait ticks s)) = sent s @ more"
proof (induction ticks arbitrary: s)
  case Nil
  then show ?case by simp
next
  case (Cons arrived later)
  obtain s' t where bt: "busyTick arrived s = (s', t)"
    by (cases "busyTick arrived s")
  obtain m1 where m1: "sent s' = sent s @ m1"
    using busyTick_sent [of arrived s] bt by auto
  obtain m2 where m2: "sent (fst (busyWait later s')) = sent s' @ m2"
    using Cons.IH [of s'] by auto
  show ?case
    using bt m1 m2 by (cases t) simp_all
qed

section \<open>Rounding to a double\<close>


lemma rne_of_int: "rne (of_int k) = k"
  by (simp add: rne_def)

lemma ulp_pos: "0 < ulp y"
  by (simp add: ulp_def)





lemma nearest_multiple:
  assumes "y / ulp y = of_int m"
  shows "nearest y = y"
proof -
  have "nearest y = of_int m * ulp y"
    by (simp add: nearest_def assms rne_of_int)
  also have "\<dots> = y / ulp y * ulp y"
    by (simp only: assms)
  also have "\<dots> = y"
    using ulp_pos [of y] by simp
  finally show ?thesis .
qed

lemma toDouble_of_int:
  assumes "\<bar>n\<bar> < 2 ^ 53"
  shows "toDouble (of_int n) = JNum (of_int n)"
proof -
  have small: "\<bar>real_of_int n\<bar> < 2 ^ 53"
  proof -
    have "real_of_int \<bar>n\<bar> < real_of_int (2 ^ 53)"
      using assms by (simp only: of_int_less_iff)
    then show ?thesis
      by simp
  qed
  have "nearest (of_int n) = of_int n"
  proof (cases "n = 0")
    case True
    then show ?thesis
      by (simp add: nearest_def rne_def)
  next
    case False
    define k where "k = \<lfloor>log 2 \<bar>real_of_int n\<bar>\<rfloor>"
    have pos: "0 < \<bar>real_of_int n\<bar>"
      using False by simp
    have "1 \<le> \<bar>n\<bar>"
      using False by arith
    then have "real_of_int 1 \<le> real_of_int \<bar>n\<bar>"
      by (simp only: of_int_le_iff)
    then have one: "1 \<le> \<bar>real_of_int n\<bar>"
      by simp
    have "0 \<le> log 2 \<bar>real_of_int n\<bar>"
      using one by simp
    then have k0: "0 \<le> k"
      by (simp add: k_def)
    have lo: "2 powr of_int k \<le> \<bar>real_of_int n\<bar>"
      using floor_log_eq_powr_iff [of "\<bar>real_of_int n\<bar>" 2 k] pos by (simp add: k_def)
    have "(2::real) powr of_int k < 2 ^ 53"
      using lo small by (rule le_less_trans)
    also have "(2::real) ^ 53 = 2 powr real_of_int 53"
      using powr_realpow [of 2 53] by simp
    finally have "real_of_int k < real_of_int 53"
      by (rule powr_less_cancel) simp
    then have k52: "k \<le> 52"
      by simp
    have b: "binade (of_int n) = k"
      using k0 by (simp add: binade_def k_def)
    have "1 / ulp (of_int n) = 2 powr of_int (52 - k)"
      by (simp add: ulp_def b powr_diff)
    also have "\<dots> = 2 ^ nat (52 - k)"
      using k52 powr_real_of_int [of 2 "52 - k"] by simp
    finally have inv: "1 / ulp (of_int n) = 2 ^ nat (52 - k)" .
    have "of_int n / ulp (of_int n) = of_int n * (1 / ulp (of_int n))"
      by simp
    then have "of_int n / ulp (of_int n) = of_int (n * 2 ^ nat (52 - k))"
      by (simp only: inv) simp
    then show ?thesis
      by (rule nearest_multiple)
  qed
  moreover have "\<bar>real_of_int n\<bar> < overflow"
  proof -
    have "(2::real) ^ 53 \<le> 2 ^ 1024"
      by (rule power_increasing) simp_all
    then show ?thesis
      using small unfolding overflow_def by (rule less_le_trans [rotated])
  qed
  ultimately show ?thesis
    by (simp add: toDouble_def)
qed

lemma toDouble_numeral: "numeral w < (2::int) ^ 53 \<Longrightarrow> toDouble (numeral w) = JNum (numeral w)"
  using toDouble_of_int [of "numeral w"] by simp








section \<open>Replies that do not parse\<close>

text \<open>
  C7: when the line answering a command does not parse, the promise of \<open>sendCmd\<close> is
  rejected with the SyntaxError of the parser (it is settled, not left pending), the
  answer is used up, and the next command sent is answered by the next line as usual.
  A line that parses resolves the promise with the parsed value whatever that is: the
  reply \<open>rsp\<close> of the second command is arbitrary, so a reply whose \<open>success\<close> is false
  is returned as a value, not as a rejection.
\<close>

theorem malformed_reply_rejects:
  assumes "replies s = (err, Malformed) # (err', Json rsp) # rest"
    and "\<not> truthy err" and "\<not> truthy err'"
  shows "sendCmd cmd s =
           (s\<lparr>replies := (err', Json rsp) # rest, sent := sent s @ [cmd]\<rparr>, Rejected SyntaxError)
       \<and> sendCmd cmd' (fst (sendCmd cmd s)) =
           (s\<lparr>replies := rest, sent := sent s @ [cmd, cmd']\<rparr>, Resolved rsp)"
  using assms by (simp add: sendCmd_Cons)

theorem malformed_reply_rejects_witness:
  "sendCmd [(''command'', JStr ''enable'')]
     (new_Autostep [(JNull, Malformed), (JNull, Json (JObj [(''success'', JBool False)]))] []) =
     ((new_Autostep [(JNull, Malformed), (JNull, Json (JObj [(''success'', JBool False)]))] [])
        \<lparr>replies := [(JNull, Json (JObj [(''success'', JBool False)]))],
         sent := sent (new_Autostep [(JNull, Malformed), (JNull, Json (JObj [(''success'', JBool False)]))] [])
                   @ [[(''command'', JStr ''enable'')]]\<rparr>, Rejected SyntaxError)
   \<and> sendCmd [(''command'', JStr ''release'')]
        (fst (sendCmd [(''command'', JStr ''enable'')]
          (new_Autostep [(JNull, Malformed), (JNull, Json (JObj [(''success'', JBool False)]))] []))) =
       ((new_Autostep [(JNull, Malformed), (JNull, Json (JObj [(''success'', JBool False)]))] [])
        \<lparr>replies := [],
         sent := sent (new_Autostep [(JNull, Malformed), (JNull, Json (JObj [(''success'', JBool False)]))] [])
                   @ [[(''command'', JStr ''enable'')], [(''command'', JStr ''release'')]]\<rparr>,
        Resolved (JObj [(''success'', JBool False)]))"
proof -
  let ?s = "new_Autostep [(JNull, Malformed), (JNull, Json (JObj [(''success'', JBool False)]))] []"
  have r: "replies ?s = (JNull, Malformed) # (JNull, Json (JObj [(''success'', JBool False)])) # []"
    by (simp add: new_Autostep_def)
  have n: "\<not> truthy JNull" by simp
  show ?thesis by (rule malformed_reply_rejects [OF r n n])
qed

section \<open>The end of a streaming session\<close>

text \<open>
  C2: a stream sample that comes with an error, or that is empty, handed to the
  consumer installed by \<open>sinusoid\<close>, sets \<open>sinusoidRunning\<close> to false; no later sample
  sets it back; and a command sent afterwards is answered by the next reply of the
  device through the ordinary path.
\<close>

theorem terminating_sample_deactivates:
  assumes "streamConsumer s = Some streamCallback"
    and "truthy err \<or> isEmpty data"
    and "replies s = (e, Json rsp) # rest" and "\<not> truthy e"
  shows "deliver (err, data) s = streamCallbackWrapped streamCallback err data s
       \<and> \<not> sinusoidRunning (streamCallbackWrapped streamCallback err data s)
       \<and> \<not> sinusoidRunning (foldl (\<lambda>s x. deliver x s) (streamCallbackWrapped streamCallback err data s) later)
       \<and> snd (sendCmd cmd (streamCallbackWrapped streamCallback err data s)) = Resolved rsp"
proof -
  let ?s' = "streamCallbackWrapped streamCallback err data s"
  have d: "deliver (err, data) s = ?s'"
    using assms(1) by (simp add: deliver_def)
  have off: "\<not> sinusoidRunning ?s'"
    using assms(2) by (auto simp: streamCallbackWrapped_def Let_def)
  have r: "replies ?s' = (e, Json rsp) # rest"
    using assms(3) by (simp add: streamCallbackWrapped_def Let_def)
  show ?thesis
    using d off deliver_all_off [OF off] assms(4) by (simp add: sendCmd_Cons [OF r])
qed

theorem terminating_sample_deactivates_witness:
  "streamConsumer ((new_Autostep [(JNull, Json (JObj [(''success'', JBool True)]))] [])
       \<lparr>sinusoidRunning := True, streamConsumer := Some True\<rparr>) = Some True
   \<and> isEmpty (JObj [])
   \<and> sinusoidRunning ((new_Autostep [(JNull, Json (JObj [(''success'', JBool True)]))] [])
       \<lparr>sinusoidRunning := True, streamConsumer := Some True\<rparr>)
   \<and> \<not> sinusoidRunning (deliver (JNull, JObj [])
       ((new_Autostep [(JNull, Json (JObj [(''success'', JBool True)]))] [])
          \<lparr>sinusoidRunning := True, streamConsumer := Some True\<rparr>))
   \<and> snd (sendCmd [(''command'', JStr ''enable'')] (deliver (JNull, JObj [])
       ((new_Autostep [(JNull, Json (JObj [(''success'', JBool True)]))] [])
          \<lparr>sinusoidRunning := True, streamConsumer := Some True\<rparr>))) =
       Resolved (JObj [(''success'', JBool True)])"
proof -
  let ?s = "(new_Autostep [(JNull, Json (JObj [(''success'', JBool True)]))] [])
       \<lparr>sinusoidRunning := True, streamConsumer := Some True\<rparr>"
  have c: "streamConsumer ?s = Some True"
    by simp
  have t: "truthy JNull \<or> isEmpty (JObj [])"
    by simp
  have r: "replies ?s = (JNull, Json (JObj [(''success'', JBool True)])) # []"
    by (simp add: new_Autostep_def)
  have e: "\<not> truthy JNull"
    by simp
  have on: "sinusoidRunning ?s"
    by simp
  from terminating_sample_deactivates [OF c t r e, of "[]" "[(''command'', JStr ''enable'')]"] c on
  show ?thesis
    by simp
qed

section \<open>Polling for the end of a motion\<close>

text \<open>
  C4: on a pass of the loop of \<open>busyWait\<close> with no streaming session active, the
  command \<open>is_busy\<close> is sent, by the pass and so by \<open>busyWait\<close> itself, whatever the
  device does then. When the reply is an object, the pass ends the loop at once if
  \<open>success\<close> is false, and otherwise ends it exactly when \<open>is_busy\<close> is false; ending
  the loop resolves the promise of \<open>busyWait\<close> (it is not rejected), and on a reply that
  reports success and a busy motor \<open>busyWait\<close> goes on with the next pass: with no pass
  left to observe, its promise is pending.
\<close>

theorem busyTick_polls_when_idle:
  assumes "\<not> sinusoidRunning s"
  shows "sent (fst (busyTick arrived s)) = sent s @ [[(''command'', JStr ''is_busy'')]]
       \<and> (\<exists>more. sent (fst (busyWait (arrived # later) s)) =
             sent s @ [(''command'', JStr ''is_busy'')] # more)
       \<and> (\<forall>err rsp rest. replies s = (err, Json (JObj rsp)) # rest \<and> \<not> truthy err \<longrightarrow>
            snd (busyTick arrived s) =
              (if \<not> truthy (obj_get rsp ''success'') then Done
               else if \<not> truthy (obj_get rsp ''is_busy'') then Done else Again)
          \<and> snd (busyWait (arrived # later) s) =
              (if \<not> truthy (obj_get rsp ''success'') \<or> \<not> truthy (obj_get rsp ''is_busy'')
               then Resolved JUndefined
               else snd (busyWait later (fst (busyTick arrived s))))
          \<and> busyWait (arrived # later) s =
              (if \<not> truthy (obj_get rsp ''success'') \<or> \<not> truthy (obj_get rsp ''is_busy'')
               then ((foldl (\<lambda>s x. deliver x s) s arrived)
                       \<lparr>replies := rest, sent := sent s @ [[(''command'', JStr ''is_busy'')]]\<rparr>,
                     Resolved JUndefined)
               else busyWait later
                      ((foldl (\<lambda>s x. deliver x s) s arrived)
                         \<lparr>replies := rest, sent := sent s @ [[(''command'', JStr ''is_busy'')]]\<rparr>))
          \<and> (truthy (obj_get rsp ''success'') \<and> truthy (obj_get rsp ''is_busy'') \<longrightarrow>
               busyWait [arrived] s =
                 ((foldl (\<lambda>s x. deliver x s) s arrived)
                    \<lparr>replies := rest, sent := sent s @ [[(''command'', JStr ''is_busy'')]]\<rparr>,
                  Pending)))"
proof -
  let ?s = "foldl (\<lambda>s x. deliver x s) s arrived"
  have off: "\<not> sinusoidRunning ?s"
    using assms by (rule deliver_all_off)
  have tick: "busyTick arrived s =
      (case isBusy ?s of
         (s', Resolved rsp) \<Rightarrow>
           (case get_prop rsp ''success'' of
              Inl e \<Rightarrow> (s', Stuck)
            | Inr success \<Rightarrow>
                if truthy success then
                  (case get_prop rsp ''is_busy'' of
                     Inl e \<Rightarrow> (s', Stuck)
                   | Inr busy \<Rightarrow> (s', if \<not> truthy busy then Done else Again))
                else (s', Done))
       | (s', _) \<Rightarrow> (s', Stuck))"
    using off by (simp add: busyTick_def Let_def)
  have fst_tick: "fst (busyTick arrived s) = fst (isBusy ?s)"
    unfolding tick by (simp split: prod.splits outcome.splits sum.splits)
  have issued: "sent (fst (busyTick arrived s)) = sent s @ [[(''command'', JStr ''is_busy'')]]"
    unfolding fst_tick by (simp add: isBusy_def sent_sendCmd deliver_all_fields)
  have whole: "\<exists>more. sent (fst (busyWait (arrived # later) s)) =
      sent s @ [(''command'', JStr ''is_busy'')] # more"
  proof -
    obtain s' t where bt: "busyTick arrived s = (s', t)"
      by (cases "busyTick arrived s")
    have s': "sent s' = sent s @ [[(''command'', JStr ''is_busy'')]]"
      using issued bt by simp
    obtain m where m: "sent (fst (busyWait later s')) = sent s' @ m"
      using busyWait_sent [of later s'] by auto
    show ?thesis
      using bt s' m by (cases t) simp_all
  qed
  have replied: "busyTick arrived s =
        (?s\<lparr>replies := rest, sent := sent s @ [[(''command'', JStr ''is_busy'')]]\<rparr>,
         if \<not> truthy (obj_get rsp ''success'') then Done
         else if \<not> truthy (obj_get rsp ''is_busy'') then Done else Again)"
    if r: "replies s = (err, Json (JObj rsp)) # rest" and e: "\<not> truthy err" for err rsp rest
  proof -
    have "replies ?s = (err, Json (JObj rsp)) # rest"
      using r by (simp add: deliver_all_fields)
    then show ?thesis
      unfolding tick using e by (simp add: isBusy_def sendCmd_Cons deliver_all_fields)
  qed
  have wait: "busyWait (arrived # later) s =
        (case busyTick arrived s of
           (s', Done) \<Rightarrow> (s', Resolved JUndefined)
         | (s', Again) \<Rightarrow> busyWait later s'
         | (s', Stuck) \<Rightarrow> (s', Pending))" for later
    by simp
  show ?thesis
  proof (intro conjI allI impI)
    show "sent (fst (busyTick arrived s)) = sent s @ [[(''command'', JStr ''is_busy'')]]"
      by (rule issued)
    show "\<exists>more. sent (fst (busyWait (arrived # later) s)) =
        sent s @ [(''command'', JStr ''is_busy'')] # more"
      by (rule whole)
  next
    fix err rsp rest
    assume a: "replies s = (err, Json (JObj rsp)) # rest \<and> \<not> truthy err"
    note t = replied [of err rsp rest, OF conjunct1 [OF a] conjunct2 [OF a]]
    show "snd (busyTick arrived s) =
        (if \<not> truthy (obj_get rsp ''success'') then Done
         else if \<not> truthy (obj_get rsp ''is_busy'') then Done else Again)"
      by (simp add: t)
    show "snd (busyWait (arrived # later) s) =
        (if \<not> truthy (obj_get rsp ''success'') \<or> \<not> truthy (obj_get rsp ''is_busy'')
         then Resolved JUndefined
         else snd (busyWait later (fst (busyTick arrived s))))"
      unfolding wait t by simp
    show "busyWait (arrived # later) s =
        (if \<not> truthy (obj_get rsp ''success'') \<or> \<not> truthy (obj_get rsp ''is_busy'')
         then (?s\<lparr>replies := rest, sent := sent s @ [[(''command'', JStr ''is_busy'')]]\<rparr>,
               Resolved JUndefined)
         else busyWait later
                (?s\<lparr>replies := rest, sent := sent s @ [[(''command'', JStr ''is_busy'')]]\<rparr>))"
      unfolding wait t by simp
    assume "truthy (obj_get rsp ''success'') \<and> truthy (obj_get rsp ''is_busy'')"
    then show "busyWait [arrived] s =
        (?s\<lparr>replies := rest, sent := sent s @ [[(''command'', JStr ''is_busy'')]]\<rparr>, Pending)"
      unfolding wait t by simp
  qed
qed

theorem busyTick_polls_when_idle_witness:
  "\<not> sinusoidRunning (new_Autostep [(JNull, Json (JObj [(''success'', JBool False)]))] [])
   \<and> sent (fst (busyTick [] (new_Autostep [(JNull, Json (JObj [(''success'', JBool False)]))] []))) =
       [[(''command'', JStr ''is_busy'')]]
   \<and> snd (busyTick [] (new_Autostep [(JNull, Json (JObj [(''success'', JBool False)]))] [])) = Done
   \<and> busyWait [[]] (new_Autostep [(JNull, Json (JObj [(''success'', JBool False)]))] []) =
       ((new_Autostep [] [])\<lparr>sent := [[(''command'', JStr ''is_busy'')]]\<rparr>, Resolved JUndefined)
   \<and> busyWait [[]]
        (new_Autostep [(JNull, Json (JObj [(''success'', JBool True), (''is_busy'', JBool True)]))] []) =
       ((new_Autostep [] [])\<lparr>sent := [[(''command'', JStr ''is_busy'')]]\<rparr>, Pending)"
proof -
  let ?s = "new_Autostep [(JNull, Json (JObj [(''success'', JBool False)]))] []"
  let ?b = "new_Autostep [(JNull, Json (JObj [(''success'', JBool True), (''is_busy'', JBool True)]))] []"
  have off: "\<not> sinusoidRunning ?s" "\<not> sinusoidRunning ?b"
    by (simp_all add: new_Autostep_def)
  have r: "replies ?s = (JNull, Json (JObj [(''success'', JBool False)])) # [] \<and> \<not> truthy JNull"
    by (simp add: new_Autostep_def)
  have rb: "replies ?b = (JNull, Json (JObj [(''success'', JBool True), (''is_busy'', JBool True)])) # []
      \<and> \<not> truthy JNull"
    by (simp add: new_Autostep_def)
  have s0: "sent ?s = []" "sent ?b = []"
    by (simp_all add: new_Autostep_def)
  have e: "?s\<lparr>replies := [], sent := [[(''command'', JStr ''is_busy'')]]\<rparr> =
      (new_Autostep [] [])\<lparr>sent := [[(''command'', JStr ''is_busy'')]]\<rparr>"
    "?b\<lparr>replies := [], sent := [[(''command'', JStr ''is_busy'')]]\<rparr> =
      (new_Autostep [] [])\<lparr>sent := [[(''command'', JStr ''is_busy'')]]\<rparr>"
    by (simp_all add: new_Autostep_def)
  have idle: "busyWait [[]] ?s = ((new_Autostep [] [])\<lparr>sent := [[(''command'', JStr ''is_busy'')]]\<rparr>, Resolved JUndefined)"
    "sent (fst (busyTick [] ?s)) = [[(''command'', JStr ''is_busy'')]]"
    "snd (busyTick [] ?s) = Done"
    using busyTick_polls_when_idle [OF off(1), of "[]" "[]"] r s0 e
    by (auto simp: obj_get_def simp del: busyWait.simps)
  have busy: "busyWait [[]] ?b = ((new_Autostep [] [])\<lparr>sent := [[(''command'', JStr ''is_busy'')]]\<rparr>, Pending)"
    using busyTick_polls_when_idle [OF off(2), of "[]" "[]"] rb s0 e
    by (auto simp: obj_get_def simp del: busyWait.simps)
  show ?thesis
    using off idle busy by (simp del: busyWait.simps)
qed

section \<open>Scaling by the gear ratio\<close>




section \<open>The autoset procedure\<close>

text \<open>The promise built by the procedure is not resolved by any of its steps.\<close>

lemma reject_unresolved: "\<forall>v. p \<noteq> Resolved v \<Longrightarrow> \<forall>v. reject e p \<noteq> Resolved v"
  by (cases p) (simp_all add: reject_def)

lemma awaitIn_unresolved:
  assumes "\<forall>v. p \<noteq> Resolved v"
    and "\<And>s v. \<forall>w. snd (k s v) \<noteq> Resolved w"
  shows "\<forall>w. snd (awaitIn r p k) \<noteq> Resolved w"
proof (cases r)
  case (Pair s x)
  then show ?thesis
    using assms by (cases x) (simp_all add: awaitIn_def)
qed

lemma rejectUnlessSuccess_unresolved:
  assumes "\<forall>v. p \<noteq> Resolved v"
    and "\<And>p'. \<forall>v. p' \<noteq> Resolved v \<Longrightarrow> \<forall>w. snd (k p') \<noteq> Resolved w"
  shows "\<forall>w. snd (rejectUnlessSuccess rsp msg s p k) \<noteq> Resolved w"
  using assms reject_unresolved [OF assms(1)]
  by (cases "get_prop rsp ''success''") (simp_all add: rejectUnlessSuccess_def)

text \<open>
  C10: \<open>autosetPositionProcedure\<close> returns \<^verbatim>\<open>undefined\<close> to its caller on every call,
  and the promise it builds is never resolved, whatever the device answers: it ends
  rejected or pending, and the caller holds no reference to it.
\<close>

theorem autosetPositionProcedure_returns_undefined:
  "fst (snd (autosetPositionProcedure n ticks s)) = JUndefined
   \<and> (\<forall>v. snd (snd (autosetPositionProcedure n ticks s)) \<noteq> Resolved v)"
proof -
  have "\<forall>w. snd (
        awaitIn (autosetPosition s) Pending (\<lambda>s rsp.
        rejectUnlessSuccess rsp ''autoset: set position failed'' s Pending (\<lambda>promise.
        awaitIn (moveTo n (JNum AUTOSET_POSITION_START_ANGLE) s) promise (\<lambda>s rsp.
        rejectUnlessSuccess rsp ''autoset: move to start position failed'' s promise (\<lambda>promise.
        awaitIn (busyWait ticks s) promise (\<lambda>s _.
        awaitIn (autosetPosition s) promise (\<lambda>s rsp.
        rejectUnlessSuccess rsp ''autoset: set position failed'' s promise (\<lambda>promise.
        (s, promise))))))))) \<noteq> Resolved w"
    by (intro awaitIn_unresolved rejectUnlessSuccess_unresolved) simp_all
  then show ?thesis
    by (simp add: autosetPositionProcedure_def case_prod_beta)
qed

text \<open>A run in which every step succeeds: four commands are sent and the promise stays pending.\<close>

lemma autosetPositionProcedure_all_succeed:
  "autosetPositionProcedure n [[]]
     (new_Autostep
        [(JNull, Json (JObj [(''success'', JBool True)])),
         (JNull, Json (JObj [(''success'', JBool True)])),
         (JNull, Json (JObj [(''success'', JBool True), (''is_busy'', JBool False)])),
         (JNull, Json (JObj [(''success'', JBool True)]))] []) =
   ((new_Autostep [] [])
      \<lparr>sent := [[(''command'', JStr ''autoset_position'')],
                [(''command'', JStr ''move_to''), (''position'', JNum 5)],
                [(''command'', JStr ''is_busy'')],
                [(''command'', JStr ''autoset_position'')]]\<rparr>,
    JUndefined, Pending)"
  by (simp add: autosetPositionProcedure_def awaitIn_def rejectUnlessSuccess_def autosetPosition_def
        moveTo_def js_mul_def busyTick_def isBusy_def sendCmd_def device_sendCmd_def obj_get_def
        new_Autostep_def DEFAULT_GEAR_RATIO_def AUTOSET_POSITION_START_ANGLE_def Let_def
        toDouble_numeral)

section \<open>The gear ratio\<close>

text \<open>No method but \<open>setGearRatio\<close> assigns the field.\<close>

lemma await_gearRatio:
  assumes "gearRatio (fst r) = g"
    and "\<And>s v. gearRatio s = g \<Longrightarrow> gearRatio (fst (k s v)) = g"
  shows "gearRatio (fst (await r k)) = g"
proof (cases r)
  case (Pair s x)
  then show ?thesis
    using assms by (cases x) (simp_all add: await_def)
qed

lemma orReject_gearRatio:
  assumes "gearRatio s = g"
    and "\<And>v. gearRatio (fst (k v)) = g"
  shows "gearRatio (fst (orReject x s k)) = g"
  using assms by (cases x) (simp_all add: orReject_def)

lemma awaitIn_gearRatio:
  assumes "gearRatio (fst r) = g"
    and "\<And>s v. gearRatio s = g \<Longrightarrow> gearRatio (fst (k s v)) = g"
  shows "gearRatio (fst (awaitIn r p k)) = g"
proof (cases r)
  case (Pair s x)
  then show ?thesis
    using assms by (cases x) (simp_all add: awaitIn_def)
qed

lemma rejectUnlessSuccess_gearRatio:
  assumes "gearRatio s = g"
    and "\<And>p'. gearRatio (fst (k p')) = g"
  shows "gearRatio (fst (rejectUnlessSuccess rsp msg s p k)) = g"
  using assms by (cases "get_prop rsp ''success''") (simp_all add: rejectUnlessSuccess_def)

lemma busyTick_gearRatio: "gearRatio (fst (busyTick arrived s)) = gearRatio s"
  by (simp add: fst_busyTick isBusy_def sendCmd_fields deliver_all_fields)

lemma busyWait_gearRatio: "gearRatio (fst (busyWait ticks s)) = gearRatio s"
proof (induction ticks arbitrary: s)
  case Nil
  then show ?case by simp
next
  case (Cons arrived later)
  obtain s' t where bt: "busyTick arrived s = (s', t)"
    by (cases "busyTick arrived s")
  then have "gearRatio s' = gearRatio s"
    using busyTick_gearRatio [of arrived s] by simp
  then show ?case
    using Cons.IH [of s'] bt by (cases t) simp_all
qed

lemma sinusoid_gearRatio: "gearRatio (fst (sinusoid n params cb s)) = gearRatio s"
  unfolding sinusoid_def cloneDeep_def Let_def
  by (simp add: case_prod_beta)
     (intro impI await_gearRatio orReject_gearRatio;
       simp add: sendCmd_fields heap_set_def setStreamCallback_def)

lemma getPosition_gearRatio: "gearRatio (fst (getPosition n s)) = gearRatio s"
  unfolding getPosition_def
  by (intro await_gearRatio orReject_gearRatio; simp add: sendCmd_fields)

lemma moveTo_gearRatio: "gearRatio (fst (moveTo n position s)) = gearRatio s"
  by (simp add: moveTo_def Let_def sendCmd_fields)

lemma moveBy_gearRatio: "gearRatio (fst (moveBy n step s)) = gearRatio s"
  unfolding moveBy_def
  by (intro await_gearRatio orReject_gearRatio; simp add: getPosition_gearRatio moveTo_gearRatio)

lemma autosetPositionProcedure_gearRatio:
  "gearRatio (fst (autosetPositionProcedure n ticks s)) = gearRatio s"
  unfolding autosetPositionProcedure_def
  by (simp add: case_prod_beta)
     (intro awaitIn_gearRatio rejectUnlessSuccess_gearRatio;
       simp add: autosetPosition_def sendCmd_fields moveTo_gearRatio busyWait_gearRatio)

lemma callSetter_gearRatio: "gearRatio (fst (callSetter name v s)) = gearRatio s"
  by (simp add: callSetter_def setFullstepPerRev_def setStepMode_def setOCThreshold_def
        setJogModeParams_def setMaxModeParams_def setKvalParams_def sendCmd_fields
        split: jsval.splits)

lemma setParams_loop_gearRatio: "gearRatio (fst (setParams_loop table params s)) = gearRatio s"
proof (induction table arbitrary: s)
  case Nil
  then show ?case by simp
next
  case (Cons entry rest)
  obtain paramName setterName where e: "entry = (paramName, setterName)"
    by (cases entry)
  have "gearRatio (fst (await (callSetter setterName (obj_get params paramName) s) (\<lambda>s rsp.
          orReject (get_prop rsp ''success'') s (\<lambda>success.
          if \<not> truthy success then (s, Resolved rsp)
          else setParams_loop rest params s)))) = gearRatio s"
    by (intro await_gearRatio orReject_gearRatio; simp add: callSetter_gearRatio Cons.IH)
  then show ?case
    by (simp add: e Cons.IH)
qed

lemma getParams_gearRatio: "gearRatio (fst (getParams s)) = gearRatio s"
  unfolding getParams_def
  by (intro await_gearRatio orReject_gearRatio;
      simp add: getFullstepPerRev_def getStepMode_def getOCThreshold_def getJogModeParams_def
        getMaxModeParams_def getKvalParams_def sendCmd_fields)

lemma perform_gearRatio:
  "gearRatio (perform n op s) = (case op of SetGearRatio g \<Rightarrow> g | _ \<Rightarrow> gearRatio s)"
proof (cases op)
  case (SetFullstepPerRev v)
  then show ?thesis
    using callSetter_gearRatio [of "''setFullstepPerRev''" v s] by (simp add: callSetter_def)
next
  case PrintParams
  have "gearRatio (fst (printParams s)) = gearRatio s"
    unfolding printParams_def by (intro await_gearRatio; simp add: getParams_gearRatio)
  with PrintParams show ?thesis by simp
qed (simp_all add: setGearRatio_def enable_def release_def run_def Let_def sendCmd_fields
      sinusoid_gearRatio moveToSinusoidStart_def moveTo_gearRatio moveBy_gearRatio
      moveToFullsteps_def moveToMicrosteps_def softStop_def hardStop_def isBusy_def
      busyWait_gearRatio setMoveModeToMax_def setMoveModeToJog_def getPosition_gearRatio
      setPosition_def getPositionFullsteps_def getPositionMicrosteps_def getPositionSensor_def
      getVoltageSensor_def autosetPosition_def autosetPositionProcedure_gearRatio
      getStepMode_def setStepMode_def getFullstepPerRev_def getJogModeParams_def
      setJogModeParams_def getMaxModeParams_def setMaxModeParams_def getKvalParams_def
      setKvalParams_def getOCThreshold_def setOCThreshold_def setParams_def
      setParams_loop_gearRatio getParams_gearRatio sleep_def deliver_fields)

text \<open>
  C9, as claimed, fails: \<open>setGearRatio\<close> stores its argument unchecked. On a new
  connection (gear ratio 1) \<open>setGearRatio 0\<close> leaves the gear ratio zero, and the next
  \<open>getPosition\<close> divides the replied position 90 by zero.
\<close>

theorem gearRatio_unchecked_counterexample:
  "gearRatio (new_Autostep [(JNull, Json (JObj [(''success'', JBool True), (''position'', JNum 90)]))] []) \<noteq> 0
   \<and> gearRatio (perform (\<lambda>_. JNaN) (SetGearRatio 0)
        (new_Autostep [(JNull, Json (JObj [(''success'', JBool True), (''position'', JNum 90)]))] [])) = 0
   \<and> snd (getPosition (\<lambda>_. JNaN) (perform (\<lambda>_. JNaN) (SetGearRatio 0)
        (new_Autostep [(JNull, Json (JObj [(''success'', JBool True), (''position'', JNum 90)]))] []))) =
       Resolved (JObj [(''success'', JBool True), (''position'', JInfinity)])"
  by (simp add: new_Autostep_def DEFAULT_GEAR_RATIO_def setGearRatio_def getPosition_def
        sendCmd_def device_sendCmd_def await_def orReject_def divide_prop_def js_div_def obj_get_def)

text \<open>
  C9, amended: the gear ratio of a new connection is 1; \<open>setGearRatio g\<close> makes it \<open>g\<close>,
  whatever \<open>g\<close> is; every other operation leaves it as it was. So a gear ratio other
  than zero stays other than zero under every operation except \<open>setGearRatio 0\<close>.
\<close>

theorem gearRatio_nonzero_preserved:
  assumes "gearRatio s \<noteq> 0" and "op \<noteq> SetGearRatio 0"
  shows "gearRatio (new_Autostep rs h) = 1
       \<and> gearRatio (perform n (SetGearRatio g) s) = g
       \<and> ((\<forall>g. op \<noteq> SetGearRatio g) \<longrightarrow> gearRatio (perform n op s) = gearRatio s)
       \<and> gearRatio (perform n op s) \<noteq> 0"
  using assms
  by (cases op) (simp_all add: perform_gearRatio new_Autostep_def DEFAULT_GEAR_RATIO_def del: perform.simps)

theorem gearRatio_nonzero_preserved_witness:
  "gearRatio (new_Autostep [] []) \<noteq> 0 \<and> GetPosition \<noteq> SetGearRatio 0
   \<and> gearRatio (perform (\<lambda>_. JNaN) (SetGearRatio 3) (new_Autostep [] [])) = 3
   \<and> gearRatio (perform (\<lambda>_. JNaN) GetPosition (new_Autostep [] [])) = gearRatio (new_Autostep [] [])
   \<and> gearRatio (perform (\<lambda>_. JNaN) GetPosition (new_Autostep [] [])) \<noteq> 0"
proof -
  have g: "gearRatio (new_Autostep [] []) \<noteq> 0"
    by (simp add: new_Autostep_def DEFAULT_GEAR_RATIO_def)
  have o: "GetPosition \<noteq> SetGearRatio 0"
    by simp
  from gearRatio_nonzero_preserved [OF g o, of "[]" "[]" "\<lambda>_. JNaN" 3] g o show ?thesis
    by simp
qed

section \<open>Reading all parameters\<close>

text \<open>
  C8: \<open>getParams\<close> sends the six getters in the fixed order (full steps per revolution,
  step mode, OC threshold, jog mode, max mode, kval), whatever the \<open>success\<close> fields of
  the replies say, and returns one object with the six keys \<open>fullstepPerRev\<close>,
  \<open>stepMode\<close>, \<open>threshold\<close>, \<open>jogMode\<close>, \<open>maxMode\<close> and \<open>kval\<close>. The replies \<open>r1\<close> to \<open>r6\<close>
  are arbitrary objects.
\<close>

theorem getParams_calls_all_getters:
  assumes "replies s = rs @ rest" and "answers rs [r1, r2, r3, r4, r5, r6]"
  shows "getParams s =
     (s\<lparr>replies := rest,
        sent := sent s @
          [[(''command'', JStr ''get_fullstep_per_rev'')],
           [(''command'', JStr ''get_step_mode'')],
           [(''command'', JStr ''get_oc_threshold'')],
           [(''command'', JStr ''get_jog_mode_params'')],
           [(''command'', JStr ''get_max_mode_params'')],
           [(''command'', JStr ''get_kval_params'')]]\<rparr>,
      Resolved (JObj
        [(''fullstepPerRev'', obj_get r1 ''fullstep_per_rev''),
         (''stepMode'', obj_get r2 ''step_mode''),
         (''threshold'', obj_get r3 ''threshold''),
         (''jogMode'', JObj (AList.delete ''success'' r4)),
         (''maxMode'', JObj (AList.delete ''success'' r5)),
         (''kval'', JObj (AList.delete ''success'' r6))]))"
proof -
  from assms(2) obtain e1 e2 e3 e4 e5 e6 where
    rs: "rs = [(e1, Json (JObj r1)), (e2, Json (JObj r2)), (e3, Json (JObj r3)),
               (e4, Json (JObj r4)), (e5, Json (JObj r5)), (e6, Json (JObj r6))]"
    and e: "\<not> truthy e1" "\<not> truthy e2" "\<not> truthy e3" "\<not> truthy e4" "\<not> truthy e5" "\<not> truthy e6"
    by (auto simp: answers_def list_all2_Cons2)
  show ?thesis
    using assms(1) e
    by (simp add: rs getParams_def await_def orReject_def delete_prop_def
          getFullstepPerRev_def getStepMode_def getOCThreshold_def getJogModeParams_def
          getMaxModeParams_def getKvalParams_def sendCmd_def device_sendCmd_def)
qed

theorem getParams_calls_all_getters_witness:
  "getParams (new_Autostep
      [(JNull, Json (JObj [(''success'', JBool False)])),
       (JNull, Json (JObj [(''success'', JBool True), (''step_mode'', JStr ''STEP_FS_64'')])),
       (JNull, Json (JObj [(''success'', JBool False)])),
       (JNull, Json (JObj [(''success'', JBool True), (''speed'', JNum 100)])),
       (JNull, Json (JObj [(''success'', JBool False)])),
       (JNull, Json (JObj []))] []) =
     ((new_Autostep [] [])
       \<lparr>sent :=
          [[(''command'', JStr ''get_fullstep_per_rev'')],
           [(''command'', JStr ''get_step_mode'')],
           [(''command'', JStr ''get_oc_threshold'')],
           [(''command'', JStr ''get_jog_mode_params'')],
           [(''command'', JStr ''get_max_mode_params'')],
           [(''command'', JStr ''get_kval_params'')]]\<rparr>,
      Resolved (JObj
        [(''fullstepPerRev'', JUndefined),
         (''stepMode'', JStr ''STEP_FS_64''),
         (''threshold'', JUndefined),
         (''jogMode'', JObj [(''speed'', JNum 100)]),
         (''maxMode'', JObj []),
         (''kval'', JObj [])]))"
proof -
  let ?rs = "[(JNull, Json (JObj [(''success'', JBool False)])),
       (JNull, Json (JObj [(''success'', JBool True), (''step_mode'', JStr ''STEP_FS_64'')])),
       (JNull, Json (JObj [(''success'', JBool False)])),
       (JNull, Json (JObj [(''success'', JBool True), (''speed'', JNum 100)])),
       (JNull, Json (JObj [(''success'', JBool False)])),
       (JNull, Json (JObj []))]"
  have r: "replies (new_Autostep ?rs []) = ?rs @ []"
    by (simp add: new_Autostep_def)
  have a: "answers ?rs
      [[(''success'', JBool False)],
       [(''success'', JBool True), (''step_mode'', JStr ''STEP_FS_64'')],
       [(''success'', JBool False)],
       [(''success'', JBool True), (''speed'', JNum 100)],
       [(''success'', JBool False)],
       []]"
    by (simp add: answers_def)
  from getParams_calls_all_getters [OF r a] show ?thesis
    by (simp add: new_Autostep_def obj_get_def)
qed

section \<open>Waiting during a streaming session\<close>

text \<open>
  While the session stays active (no sample that ends it arrives), \<open>busyWait\<close> sends
  nothing and stays pending.
\<close>

lemma deliver_ordinary:
  "sinusoidRunning s \<Longrightarrow> \<not> truthy (fst x) \<Longrightarrow> \<not> isEmpty (snd x) \<Longrightarrow> sinusoidRunning (deliver x s)"
  by (simp add: deliver_def streamCallbackWrapped_def Let_def split: option.splits)

lemma deliver_all_ordinary:
  "sinusoidRunning s \<Longrightarrow> \<forall>x\<in>set xs. \<not> truthy (fst x) \<and> \<not> isEmpty (snd x) \<Longrightarrow>
   sinusoidRunning (foldl (\<lambda>s x. deliver x s) s xs)"
  by (induction xs arbitrary: s) (simp_all add: deliver_ordinary)

lemma busyWait_silent_while_streaming:
  "sinusoidRunning s \<Longrightarrow> \<forall>x\<in>set (concat ticks). \<not> truthy (fst x) \<and> \<not> isEmpty (snd x) \<Longrightarrow>
   sent (fst (busyWait ticks s)) = sent s \<and> snd (busyWait ticks s) = Pending"
proof (induction ticks arbitrary: s)
  case Nil
  then show ?case by simp
next
  case (Cons arrived later)
  let ?s = "foldl (\<lambda>s x. deliver x s) s arrived"
  have on: "sinusoidRunning ?s"
    using Cons.prems by (intro deliver_all_ordinary) simp_all
  then have tick: "busyTick arrived s = (?s, Again)"
    by (simp add: busyTick_def Let_def)
  have "sent (fst (busyWait later ?s)) = sent ?s \<and> snd (busyWait later ?s) = Pending"
    using on Cons.prems by (intro Cons.IH) simp_all
  then show ?case
    by (simp add: tick deliver_all_fields)
qed

text \<open>
  C1: \<open>busyWait\<close> called during a streaming session is to send no \<open>is_busy\<close> while the
  session is active and to resolve when the session ends, with no command sent in
  between. The first part holds (\<open>busyWait_silent_while_streaming\<close>). The second does
  not: the test placed inside the branch for an active session can never succeed, so
  the pass after the end of the session takes the polling branch. In the run below
  the session is active at the first expiry of the timer, the empty sample arrives
  before the second, and the device reports that the motor is busy: \<open>is_busy\<close> has
  been sent and the promise is still pending.
\<close>

theorem busyWait_polls_after_stream_end:
  "busyWait [[], [(JNull, JObj [])]]
     ((new_Autostep [(JNull, Json (JObj [(''success'', JBool True), (''is_busy'', JBool True)]))] [])
        \<lparr>sinusoidRunning := True, streamConsumer := Some False\<rparr>) =
   ((new_Autostep [] [])
        \<lparr>sinusoidRunning := False, streamConsumer := Some False,
         sent := [[(''command'', JStr ''is_busy'')]]\<rparr>, Pending)"
  by (simp add: busyTick_def deliver_def streamCallbackWrapped_def isBusy_def sendCmd_def
        device_sendCmd_def obj_get_def new_Autostep_def Let_def)

section \<open>Starting a sinusoid\<close>






section \<open>Writing several parameters\<close>

text \<open>
  One pass of the loop of \<open>setParams\<close> for a field that is applied, and the two ways the
  loop can end: every reply reports success, or some reply is the first that does not.
\<close>

lemma answers_Nil: "answers rs [] \<longleftrightarrow> rs = []"
  by (simp add: answers_def)

lemma answers_Cons:
  "answers rs (ps # os) \<longleftrightarrow>
     (\<exists>e rs'. rs = (e, Json (JObj ps)) # rs' \<and> \<not> truthy e \<and> answers rs' os)"
  by (auto simp: answers_def list_all2_Cons2)

lemma callSetter_sends:
  assumes "(paramName, setterName) \<in> set paramSetters"
    and "setterName = ''setFullstepPerRev'' \<longrightarrow> isNumber v"
  shows "callSetter setterName v s = sendCmd (setterCmd setterName v) s"
  using assms
  by (auto simp: paramSetters_def callSetter_def setterCmd_def setFullstepPerRev_def
        setStepMode_def setOCThreshold_def setJogModeParams_def setMaxModeParams_def
        setKvalParams_def isNumber_def split: jsval.splits)

lemma fullstepPerRev_entry:
  "(paramName, ''setFullstepPerRev'') \<in> set paramSetters \<Longrightarrow> paramName = ''fullstepPerRev''"
  by (auto simp: paramSetters_def)

lemma planned_Cons:
  "planned ((paramName, setterName) # table) params =
     (if truthy (obj_get params paramName)
      then setterCmd setterName (obj_get params paramName) # planned table params
      else planned table params)"
  by (simp add: planned_def)

lemma setParams_loop_step:
  assumes "(paramName, setterName) \<in> set paramSetters"
    and "truthy (obj_get params ''fullstepPerRev'') \<longrightarrow> isNumber (obj_get params ''fullstepPerRev'')"
    and "truthy (obj_get params paramName)"
    and "replies s = (e, Json (JObj ps)) # later" and "\<not> truthy e"
  shows "setParams_loop ((paramName, setterName) # table) params s =
     (if \<not> truthy (obj_get ps ''success'')
      then (s\<lparr>replies := later, sent := sent s @ [setterCmd setterName (obj_get params paramName)]\<rparr>,
            Resolved (JObj ps))
      else setParams_loop table params
             (s\<lparr>replies := later, sent := sent s @ [setterCmd setterName (obj_get params paramName)]\<rparr>))"
proof -
  have "setterName = ''setFullstepPerRev'' \<longrightarrow> isNumber (obj_get params paramName)"
    using assms(1,2,3) fullstepPerRev_entry by blast
  then have "callSetter setterName (obj_get params paramName) s =
      sendCmd (setterCmd setterName (obj_get params paramName)) s"
    using assms(1) by (intro callSetter_sends)
  then show ?thesis
    using assms(3,5) by (simp add: sendCmd_Cons [OF assms(4)] await_def orReject_def)
qed

lemma setParams_loop_all_succeed:
  assumes "set table \<subseteq> set paramSetters"
    and "truthy (obj_get params ''fullstepPerRev'') \<longrightarrow> isNumber (obj_get params ''fullstepPerRev'')"
    and "replies s = rs @ rest" and "answers rs os"
    and "length os = length (planned table params)"
    and "\<forall>ps\<in>set os. truthy (obj_get ps ''success'')"
  shows "setParams_loop table params s =
     (s\<lparr>replies := rest, sent := sent s @ planned table params\<rparr>,
      Resolved (JObj [(''success'', JBool True)]))"
  using assms
proof (induction table arbitrary: s rs os)
  case Nil
  then show ?case
    by (simp add: planned_def answers_Nil)
next
  case (Cons entry table)
  obtain paramName setterName where entry: "entry = (paramName, setterName)"
    by (cases entry)
  show ?case
  proof (cases "truthy (obj_get params paramName)")
    case False
    then show ?thesis
      using Cons.IH [of s rs os] Cons.prems by (simp add: entry planned_Cons)
  next
    case True
    then obtain ps os' where os: "os = ps # os'"
      using Cons.prems(5) by (cases os) (simp_all add: entry planned_Cons)
    then obtain e rs' where rs: "rs = (e, Json (JObj ps)) # rs'" and e: "\<not> truthy e"
      and rest: "answers rs' os'"
      using Cons.prems(4) by (auto simp: answers_Cons)
    let ?s1 = "s\<lparr>replies := rs' @ rest, sent := sent s @ [setterCmd setterName (obj_get params paramName)]\<rparr>"
    have r: "replies s = (e, Json (JObj ps)) # (rs' @ rest)"
      using Cons.prems(3) by (simp add: rs)
    have mem: "(paramName, setterName) \<in> set paramSetters"
      using Cons.prems(1) by (simp add: entry)
    have ok: "truthy (obj_get ps ''success'')"
      using Cons.prems(6) by (simp add: os)
    have "setParams_loop (entry # table) params s = setParams_loop table params ?s1"
      unfolding entry using ok
        by (simp add: setParams_loop_step [OF mem Cons.prems(2) True r e] del: setParams_loop.simps)
    moreover have "setParams_loop table params ?s1 =
        (?s1\<lparr>replies := rest, sent := sent ?s1 @ planned table params\<rparr>,
         Resolved (JObj [(''success'', JBool True)]))"
      using Cons.prems True rest by (intro Cons.IH [of ?s1 rs' os']) (simp_all add: os entry planned_Cons)
    ultimately show ?thesis
      using True by (simp add: entry planned_Cons)
  qed
qed

lemma setParams_loop_first_failure:
  assumes "set table \<subseteq> set paramSetters"
    and "truthy (obj_get params ''fullstepPerRev'') \<longrightarrow> isNumber (obj_get params ''fullstepPerRev'')"
    and "replies s = rs @ rest" and "answers rs (oks @ [bad])"
    and "length oks < length (planned table params)"
    and "\<forall>ps\<in>set oks. truthy (obj_get ps ''success'')"
    and "\<not> truthy (obj_get bad ''success'')"
  shows "setParams_loop table params s =
     (s\<lparr>replies := rest, sent := sent s @ take (Suc (length oks)) (planned table params)\<rparr>,
      Resolved (JObj bad))"
  using assms
proof (induction table arbitrary: s rs oks)
  case Nil
  then show ?case
    by (simp add: planned_def)
next
  case (Cons entry table)
  obtain paramName setterName where entry: "entry = (paramName, setterName)"
    by (cases entry)
  show ?case
  proof (cases "truthy (obj_get params paramName)")
    case False
    then show ?thesis
      using Cons.IH [of s rs oks] Cons.prems by (simp add: entry planned_Cons)
  next
    case True
    have mem: "(paramName, setterName) \<in> set paramSetters"
      using Cons.prems(1) by (simp add: entry)
    show ?thesis
    proof (cases oks)
      case Nil
      then obtain e where rs: "rs = [(e, Json (JObj bad))]" and e: "\<not> truthy e"
        using Cons.prems(4) by (auto simp: answers_Cons answers_Nil)
      have r: "replies s = (e, Json (JObj bad)) # rest"
        using Cons.prems(3) by (simp add: rs)
      show ?thesis
        unfolding entry using Cons.prems(7) True Nil
        by (simp add: setParams_loop_step [OF mem Cons.prems(2) True r e] planned_Cons
              del: setParams_loop.simps)
    next
      case (Cons ps oks')
      then obtain e rs' where rs: "rs = (e, Json (JObj ps)) # rs'" and e: "\<not> truthy e"
        and rest: "answers rs' (oks' @ [bad])"
        using Cons.prems(4) by (auto simp: answers_Cons)
      let ?s1 = "s\<lparr>replies := rs' @ rest, sent := sent s @ [setterCmd setterName (obj_get params paramName)]\<rparr>"
      have r: "replies s = (e, Json (JObj ps)) # (rs' @ rest)"
        using Cons.prems(3) by (simp add: rs)
      have ok: "truthy (obj_get ps ''success'')"
        using Cons.prems(6) by (simp add: Cons)
      have "setParams_loop (entry # table) params s = setParams_loop table params ?s1"
        unfolding entry using ok
        by (simp add: setParams_loop_step [OF mem Cons.prems(2) True r e] del: setParams_loop.simps)
      moreover have "setParams_loop table params ?s1 =
          (?s1\<lparr>replies := rest, sent := sent ?s1 @ take (Suc (length oks')) (planned table params)\<rparr>,
           Resolved (JObj bad))"
        using Cons.prems True rest Cons
        by (intro Cons.IH [of ?s1 rs' oks']) (simp_all add: entry planned_Cons)
      ultimately show ?thesis
        using True Cons by (simp add: entry planned_Cons)
    qed
  qed
qed

text \<open>
  C3, as claimed, fails: the loop tests \<^verbatim>\<open>if (params[paramName])\<close>, the value and
  not the presence of the field. Here \<open>threshold\<close> is present with the value 0:
  only \<open>set_fullstep_per_rev\<close> is sent, \<open>set_oc_threshold\<close> is not, and the result is
  \<open>{success: true}\<close>.
\<close>

theorem setParams_skips_falsy_field:
  "map_of [(''fullstepPerRev'', JNum 200), (''threshold'', JNum 0)] ''threshold'' = Some (JNum 0)
   \<and> setParams [(''fullstepPerRev'', JNum 200), (''threshold'', JNum 0)]
       (new_Autostep
          [(JNull, Json (JObj [(''success'', JBool True)])),
           (JNull, Json (JObj [(''success'', JBool True)]))] []) =
     ((new_Autostep [(JNull, Json (JObj [(''success'', JBool True)]))] [])
        \<lparr>sent := [[(''command'', JStr ''set_fullstep_per_rev''), (''fullstep_per_rev'', JNum 200)]]\<rparr>,
      Resolved (JObj [(''success'', JBool True)]))"
  by (simp add: setParams_def paramSetters_def callSetter_def setFullstepPerRev_def toFixed0_def
        obj_get_def sendCmd_def device_sendCmd_def await_def orReject_def new_Autostep_def)

text \<open>
  C3, amended: \<open>setParams\<close> goes through the six setters in the order of the table
  (\<open>fullstepPerRev\<close>, \<open>stepMode\<close>, \<open>threshold\<close>, \<open>jogMode\<close>, \<open>maxMode\<close>, \<open>kval\<close>) and
  applies the setter of exactly those fields whose value in \<open>params\<close> is truthy
  (\<open>planned\<close>); absent fields and fields holding 0, NaN, the empty string, \<^verbatim>\<open>null\<close> or
  \<^verbatim>\<open>false\<close> are skipped. The replies being objects \<open>os\<close>: if there is one for each
  applied setter and all report success, all the commands are sent and the result is
  \<open>{success: true}\<close>; if \<open>bad\<close> is the first reply whose \<open>success\<close> is not truthy, the
  commands up to the one it answers are sent, no later one, and the result is \<open>bad\<close>.
  (\<open>fullstepPerRev\<close>, when applied, is a number: the setter calls \<^verbatim>\<open>toFixed\<close> on it.)
\<close>

theorem setParams_applies_truthy_fields_in_order:
  assumes "truthy (obj_get params ''fullstepPerRev'') \<longrightarrow> isNumber (obj_get params ''fullstepPerRev'')"
    and "replies s = rs @ rest" and "answers rs os"
  shows "(length os = length (planned paramSetters params)
          \<and> (\<forall>ps\<in>set os. truthy (obj_get ps ''success'')) \<longrightarrow>
            setParams params s =
              (s\<lparr>replies := rest, sent := sent s @ planned paramSetters params\<rparr>,
               Resolved (JObj [(''success'', JBool True)])))
       \<and> (\<forall>oks bad.
            os = oks @ [bad] \<and> length oks < length (planned paramSetters params)
            \<and> (\<forall>ps\<in>set oks. truthy (obj_get ps ''success''))
            \<and> \<not> truthy (obj_get bad ''success'') \<longrightarrow>
            setParams params s =
              (s\<lparr>replies := rest,
                 sent := sent s @ take (Suc (length oks)) (planned paramSetters params)\<rparr>,
               Resolved (JObj bad)))"
proof (intro conjI allI impI)
  assume "length os = length (planned paramSetters params)
      \<and> (\<forall>ps\<in>set os. truthy (obj_get ps ''success''))"
  then show "setParams params s =
      (s\<lparr>replies := rest, sent := sent s @ planned paramSetters params\<rparr>,
       Resolved (JObj [(''success'', JBool True)]))"
    unfolding setParams_def using assms
    by (intro setParams_loop_all_succeed [of paramSetters params s rs rest os]) simp_all
next
  fix oks bad
  assume a: "os = oks @ [bad] \<and> length oks < length (planned paramSetters params)
      \<and> (\<forall>ps\<in>set oks. truthy (obj_get ps ''success''))
      \<and> \<not> truthy (obj_get bad ''success'')"
  then show "setParams params s =
      (s\<lparr>replies := rest,
         sent := sent s @ take (Suc (length oks)) (planned paramSetters params)\<rparr>,
       Resolved (JObj bad))"
    unfolding setParams_def using assms
    by (intro setParams_loop_first_failure [of paramSetters params s rs rest oks bad]) simp_all
qed

theorem setParams_applies_truthy_fields_in_order_witness:
  "setParams [(''fullstepPerRev'', JNum 200), (''stepMode'', JStr ''bad''), (''threshold'', JNum 1000)]
     (new_Autostep
        [(JNull, Json (JObj [(''success'', JBool True)])),
         (JNull, Json (JObj [(''success'', JBool False), (''message'', JStr ''unknown step mode'')])),
         (JNull, Json (JObj [(''success'', JBool True)]))] []) =
     ((new_Autostep [(JNull, Json (JObj [(''success'', JBool True)]))] [])
        \<lparr>sent := [[(''command'', JStr ''set_fullstep_per_rev''), (''fullstep_per_rev'', JNum 200)],
                  [(''command'', JStr ''set_step_mode''), (''step_mode'', JStr ''bad'')]]\<rparr>,
      Resolved (JObj [(''success'', JBool False), (''message'', JStr ''unknown step mode'')]))
   \<and> setParams [(''stepMode'', JStr ''STEP_FS_64''), (''kval'', JObj [(''accel'', JNum 30)])]
     (new_Autostep
        [(JNull, Json (JObj [(''success'', JBool True)])),
         (JNull, Json (JObj [(''success'', JBool True)]))] []) =
     ((new_Autostep [] [])
        \<lparr>sent := [[(''command'', JStr ''set_step_mode''), (''step_mode'', JStr ''STEP_FS_64'')],
                  [(''command'', JStr ''set_kval_params''), (''accel'', JNum 30)]]\<rparr>,
      Resolved (JObj [(''success'', JBool True)]))"
proof -
  let ?ok = "[(''success'', JBool True)]"
  let ?bad = "[(''success'', JBool False), (''message'', JStr ''unknown step mode'')]"
  let ?p1 = "[(''fullstepPerRev'', JNum 200), (''stepMode'', JStr ''bad''), (''threshold'', JNum 1000)]"
  let ?s1 = "new_Autostep [(JNull, Json (JObj ?ok)), (JNull, Json (JObj ?bad)), (JNull, Json (JObj ?ok))] []"
  let ?p2 = "[(''stepMode'', JStr ''STEP_FS_64''), (''kval'', JObj [(''accel'', JNum 30)])]"
  let ?s2 = "new_Autostep [(JNull, Json (JObj ?ok)), (JNull, Json (JObj ?ok))] []"
  have n1: "truthy (obj_get ?p1 ''fullstepPerRev'') \<longrightarrow> isNumber (obj_get ?p1 ''fullstepPerRev'')"
    by (simp add: obj_get_def isNumber_def)
  have r1: "replies ?s1 = [(JNull, Json (JObj ?ok)), (JNull, Json (JObj ?bad))] @ [(JNull, Json (JObj ?ok))]"
    by (simp add: new_Autostep_def)
  have a1: "answers [(JNull, Json (JObj ?ok)), (JNull, Json (JObj ?bad))] [?ok, ?bad]"
    by (simp add: answers_def)
  have pl1: "planned paramSetters ?p1 =
      [[(''command'', JStr ''set_fullstep_per_rev''), (''fullstep_per_rev'', JNum 200)],
       [(''command'', JStr ''set_step_mode''), (''step_mode'', JStr ''bad'')],
       [(''command'', JStr ''set_oc_threshold''), (''threshold'', JNum 1000)]]"
    by (simp add: planned_def paramSetters_def setterCmd_def obj_get_def toFixed0_def)
  have n2: "truthy (obj_get ?p2 ''fullstepPerRev'') \<longrightarrow> isNumber (obj_get ?p2 ''fullstepPerRev'')"
    by (simp add: obj_get_def)
  have r2: "replies ?s2 = [(JNull, Json (JObj ?ok)), (JNull, Json (JObj ?ok))] @ []"
    by (simp add: new_Autostep_def)
  have a2: "answers [(JNull, Json (JObj ?ok)), (JNull, Json (JObj ?ok))] [?ok, ?ok]"
    by (simp add: answers_def)
  have pl2: "planned paramSetters ?p2 =
      [[(''command'', JStr ''set_step_mode''), (''step_mode'', JStr ''STEP_FS_64'')],
       [(''command'', JStr ''set_kval_params''), (''accel'', JNum 30)]]"
    by (simp add: planned_def paramSetters_def setterCmd_def obj_get_def spread_def own_props_def)
  have first: "setParams ?p1 ?s1 =
      (?s1\<lparr>replies := [(JNull, Json (JObj ?ok))],
          sent := sent ?s1 @ take (Suc (length [?ok])) (planned paramSetters ?p1)\<rparr>,
       Resolved (JObj ?bad))"
    using setParams_applies_truthy_fields_in_order [OF n1 r1 a1]
    by (simp add: pl1 obj_get_def)
  have second: "setParams ?p2 ?s2 =
      (?s2\<lparr>replies := [], sent := sent ?s2 @ planned paramSetters ?p2\<rparr>,
       Resolved (JObj ?ok))"
    using setParams_applies_truthy_fields_in_order [OF n2 r2 a2]
    by (simp add: pl2 obj_get_def)
  show ?thesis
    unfolding first second by (simp add: pl1 pl2 new_Autostep_def)
qed

end
